theory Spec2Isabelle
  imports Complex_Main "HOL-Library.Word"
begin

unbundle bit_operations_syntax

section \<open>The PCM codec of App.jsx\<close>

text \<open>
  The capture callback \<^verbatim>\<open>onaudioprocess\<close> (App.jsx, lines 158-168) turns a block of
  Float32 samples into base64 text; \<^verbatim>\<open>playPcmChunk\<close> (lines 215-238) turns base64 text
  back into Float32 samples.

  A sample is modelled as a \<^typ>\<open>real\<close>. Every finite Float32 value is a real, and the
  arithmetic the code does on it is exact in JavaScript's doubles: a Float32 has a 24-bit
  significand, so its product with \<open>0x8000\<close> or \<open>0x7FFF\<close> needs at most 39 bits, and a
  16-bit integer divided by \<open>32768.0\<close> fits a Float32. NaN is not a real and is outside
  this model.
\<close>

subsection \<open>Capture: clamp, scale, store as Int16\<close>

text \<open>\<^verbatim>\<open>const s = Math.max(-1, Math.min(1, inputData[i]));\<close>\<close>

definition clamp_sample :: "real \<Rightarrow> real" where
  "clamp_sample x = max (- 1) (min 1 x)"

text \<open>\<^verbatim>\<open>s < 0 ? s * 0x8000 : s * 0x7FFF\<close>\<close>

definition scale_sample :: "real \<Rightarrow> real" where
  "scale_sample s = (if s < 0 then s * 32768 else s * 32767)"

text \<open>
  Storing a number into an \<^verbatim>\<open>Int16Array\<close> applies ECMAScript's ToInt16: the fraction
  is dropped (towards zero) and the integer is reduced modulo \<open>2 ^ 16\<close>.
\<close>

definition js_trunc :: "real \<Rightarrow> int" where
  "js_trunc v = (if v < 0 then \<lceil>v\<rceil> else \<lfloor>v\<rfloor>)"

definition ToInt16 :: "real \<Rightarrow> 16 word" where
  "ToInt16 v = word_of_int (js_trunc v)"

definition pcm_sample :: "real \<Rightarrow> 16 word" where
  "pcm_sample x = ToInt16 (scale_sample (clamp_sample x))"

text \<open>The \<^verbatim>\<open>for\<close> loop of lines 161-164 over the whole block.\<close>

fun float_to_pcm :: "real list \<Rightarrow> 16 word list" where
  "float_to_pcm [] = []"
| "float_to_pcm (x # xs) = pcm_sample x # float_to_pcm xs"

text \<open>
  \<^verbatim>\<open>new Uint8Array(pcmData.buffer)\<close>: the bytes of the Int16Array in the platform's
  byte order, little-endian on every platform a browser runs on: low byte first.
\<close>

definition int16_bytes :: "16 word \<Rightarrow> 8 word list" where
  "int16_bytes w = [ucast w, ucast (drop_bit 8 w)]"

fun pcm_bytes :: "16 word list \<Rightarrow> 8 word list" where
  "pcm_bytes [] = []"
| "pcm_bytes (w # ws) = int16_bytes w @ pcm_bytes ws"

subsection \<open>Base64: the browser's btoa and atob\<close>

definition b64_alphabet :: string where
  "b64_alphabet = ''ABCDEFGHIJKLMNOPQRSTUVWXYZabcdefghijklmnopqrstuvwxyz0123456789+/''"

definition b64_char :: "nat \<Rightarrow> char" where
  "b64_char n = b64_alphabet ! (n mod 64)"

text \<open>
  \<^verbatim>\<open>btoa(String.fromCharCode(...bytes))\<close>: the string has one character per byte, and
  \<^verbatim>\<open>btoa\<close> encodes three bytes as four characters, padding the last group with \<open>=\<close>.
\<close>

fun btoa :: "8 word list \<Rightarrow> string" where
  "btoa [] = []"
| "btoa [a] =
     (let n = unat a * 65536
      in [b64_char (n div 262144), b64_char (n div 4096 mod 64), CHR ''='', CHR ''=''])"
| "btoa [a, b] =
     (let n = unat a * 65536 + unat b * 256
      in [b64_char (n div 262144), b64_char (n div 4096 mod 64),
          b64_char (n div 64 mod 64), CHR ''=''])"
| "btoa (a # b # c # bs) =
     (let n = unat a * 65536 + unat b * 256 + unat c
      in [b64_char (n div 262144), b64_char (n div 4096 mod 64),
          b64_char (n div 64 mod 64), b64_char (n mod 64)] @ btoa bs)"

text \<open>
  \<^verbatim>\<open>atob\<close> is the HTML standard's forgiving-base64 decode: ASCII whitespace is removed;
  if the length is then a multiple of four, one or two trailing \<open>=\<close> are removed; a
  length of 1 modulo 4, or a character outside the alphabet, throws
  \<^verbatim>\<open>InvalidCharacterError\<close>; the rest is read six bits at a time, the spare bits of a
  last partial group dropped.
\<close>

definition ascii_whitespace :: "char \<Rightarrow> bool" where
  "ascii_whitespace c = (c \<in> {CHR 0x09, CHR 0x0A, CHR 0x0C, CHR 0x0D, CHR 0x20})"

fun index_of :: "'a \<Rightarrow> 'a list \<Rightarrow> nat option" where
  "index_of c [] = None"
| "index_of c (x # xs) =
     (if c = x then Some 0 else map_option Suc (index_of c xs))"

definition b64_index :: "char \<Rightarrow> nat option" where
  "b64_index c = index_of c b64_alphabet"

definition strip_padding :: "string \<Rightarrow> string" where
  "strip_padding d =
     (if d \<noteq> [] \<and> last d = CHR ''='' then
        (let d' = butlast d
         in if d' \<noteq> [] \<and> last d' = CHR ''='' then butlast d' else d')
      else d)"

fun decode_sextets :: "nat list \<Rightarrow> 8 word list" where
  "decode_sextets (s1 # s2 # s3 # s4 # ss) =
     (let n = s1 * 262144 + s2 * 4096 + s3 * 64 + s4
      in [of_nat (n div 65536), of_nat (n div 256 mod 256), of_nat (n mod 256)]
         @ decode_sextets ss)"
| "decode_sextets [s1, s2, s3] =
     (let n = (s1 * 4096 + s2 * 64 + s3) div 4
      in [of_nat (n div 256), of_nat (n mod 256)])"
| "decode_sextets [s1, s2] = [of_nat ((s1 * 64 + s2) div 16)]"
| "decode_sextets _ = []"

datatype fault = InvalidCharacterError | NotSupportedError | SyntaxError | TypeError

fun sextets_of :: "string \<Rightarrow> nat list option" where
  "sextets_of [] = Some []"
| "sextets_of (c # cs) =
     (case b64_index c of
        None \<Rightarrow> None
      | Some i \<Rightarrow> map_option ((#) i) (sextets_of cs))"

definition atob :: "string \<Rightarrow> fault + 8 word list" where
  "atob s =
     (let d = filter (\<lambda>c. \<not> ascii_whitespace c) s;
          d = (if length d mod 4 = 0 then strip_padding d else d)
      in if length d mod 4 = 1 then Inl InvalidCharacterError
         else (case sextets_of d of
                 None \<Rightarrow> Inl InvalidCharacterError
               | Some ss \<Rightarrow> Inr (decode_sextets ss)))"

subsection \<open>Playback: bytes to Int16 to Float32\<close>

text \<open>\<^verbatim>\<open>dataView.getInt16(i * 2, true)\<close>: two bytes, little-endian, read as signed.\<close>

definition getInt16 :: "8 word list \<Rightarrow> nat \<Rightarrow> 16 word" where
  "getInt16 bs off = push_bit 8 (ucast (bs ! (off + 1))) OR ucast (bs ! off)"

text \<open>\<^verbatim>\<open>int16 / 32768.0\<close>\<close>

definition int16_to_float :: "16 word \<Rightarrow> real" where
  "int16_to_float w = real_of_int (sint w) / 32768"

text \<open>
  Lines 220-226. \<^verbatim>\<open>new Float32Array(audioBytes.byteLength / 2)\<close> rounds its length
  down (ToIndex), so an odd last byte is never read, and every read of the loop is in
  range.
\<close>

definition bytes_to_float :: "8 word list \<Rightarrow> real list" where
  "bytes_to_float bs =
     map (\<lambda>i. int16_to_float (getInt16 bs (i * 2))) [0 ..< length bs div 2]"

text \<open>Lines 217-226 together: the decoding half of \<^verbatim>\<open>playPcmChunk\<close>.\<close>

definition decode_pcm :: "string \<Rightarrow> fault + real list" where
  "decode_pcm base64Audio =
     (case atob base64Audio of
        Inl e \<Rightarrow> Inl e
      | Inr audioBytes \<Rightarrow> Inr (bytes_to_float audioBytes))"

text \<open>Lines 158-168 together: the encoding half of \<^verbatim>\<open>onaudioprocess\<close>.\<close>

definition encode_pcm :: "real list \<Rightarrow> string" where
  "encode_pcm inputData = btoa (pcm_bytes (float_to_pcm inputData))"

section \<open>The session of App.jsx\<close>

subsection \<open>Inbound data\<close>

text \<open>
  The value \<^verbatim>\<open>JSON.parse\<close> returns. An object is the list of its properties, each name
  once (of a name written twice \<^verbatim>\<open>JSON.parse\<close> keeps one property).
\<close>

datatype json =
  JNull
| JBool bool
| JNum real
| JStr string
| JArr "json list"
| JObj "(string \<times> json) list"

text \<open>
  \<^verbatim>\<open>data.vol\<close>, \<^verbatim>\<open>data.type\<close>, \<^verbatim>\<open>data.text\<close>, \<^verbatim>\<open>data.audio\<close>: \<open>None\<close> is
  \<^verbatim>\<open>undefined\<close>. A number, a string, a boolean or an array has none of these four
  properties. Reading a property of \<^verbatim>\<open>null\<close> throws; \<open>onmessage_try\<close> tests for it
  before any read.
\<close>

fun property :: "json \<Rightarrow> string \<Rightarrow> json option" where
  "property (JObj kvs) k = map_of kvs k"
| "property _ k = None"

text \<open>JavaScript's truthiness, as the tests \<^verbatim>\<open>data.text\<close> and \<^verbatim>\<open>!data.type\<close> use it.\<close>

fun truthy :: "json option \<Rightarrow> bool" where
  "truthy None = False"
| "truthy (Some JNull) = False"
| "truthy (Some (JBool b)) = b"
| "truthy (Some (JNum x)) = (x \<noteq> 0)"
| "truthy (Some (JStr s)) = (s \<noteq> [])"
| "truthy (Some (JArr _)) = True"
| "truthy (Some (JObj _)) = True"

text \<open>
  What the browser supplies and this development does not define: \<^verbatim>\<open>JSON.parse\<close>
  (\<open>None\<close> when it throws \<^verbatim>\<open>SyntaxError\<close>), the string conversion \<^verbatim>\<open>atob\<close> applies
  to an argument that is not a string, and whether
  \<^verbatim>\<open>navigator.mediaDevices.getUserMedia\<close> exists. Every theorem holds for any such
  platform.
\<close>

record platform =
  JSON_parse :: "string \<Rightarrow> json option"
  ToString :: "json \<Rightarrow> string"
  has_getUserMedia :: bool

subsection \<open>State\<close>

text \<open>
  \<^verbatim>\<open>debugInfo.status\<close> takes the values \<^verbatim>\<open>'Disconnected'\<close>, \<^verbatim>\<open>'Connecting...'\<close>,
  \<^verbatim>\<open>'Connected'\<close>, \<^verbatim>\<open>'Error'\<close> and \<^verbatim>\<open>`Disconnected (${event.code})`\<close>.
\<close>

datatype status_text =
  Disconnected
| Connecting
| Connected
| Error
| Disconnected_code nat

record debug_info =
  status :: status_text
  lastMessage :: string

text \<open>
  \<^verbatim>\<open>{ id, text, timestamp }\<close>, lines 60-64. The text is whatever value the message
  carried, the timestamp is in milliseconds.
\<close>

record whisper =
  id_w :: nat
  text_w :: json
  timestamp_w :: nat

datatype ready_state = CONNECTING | OPEN | CLOSING | CLOSED

text \<open>
  The three callbacks given to \<^verbatim>\<open>setTimeout\<close>: line 40 (100 ms), line 70
  (10000 ms) and line 192 (2000 ms).
\<close>

datatype timer_action = StartCapture | ExpireWhisper nat | AutoStop

text \<open>
  A line of \<^verbatim>\<open>console.log\<close> or \<^verbatim>\<open>console.error\<close>: the fixed text the call starts
  with; the values printed after it are left out.
\<close>

datatype console_line = Log string | Err string

datatype release =
  Socket_close nat
| Processor_disconnect nat
| Track_stop nat
| Context_close nat

datatype playback = Played "real list" | PlayFailed fault

text \<open>
  The first ten fields are the component's \<^verbatim>\<open>useState\<close> and \<^verbatim>\<open>useRef\<close> cells
  (lines 6-16). The rest is the browser around it: the sockets created so far with their
  \<^verbatim>\<open>readyState\<close> (a ref holds an index into them), the pending timers with the time
  they are due, the clock in milliseconds (\<^verbatim>\<open>Date.now()\<close>), the number of
  \<^verbatim>\<open>getUserMedia\<close> promises not yet settled, the next fresh handle for a stream,
  audio context or processor, and what the component has done to the outside: envelopes
  sent, calls of \<^verbatim>\<open>playPcmChunk\<close>, resources released, console lines.
  \<^verbatim>\<open>audioLevel\<close> holds whatever value a message gave as \<^verbatim>\<open>vol\<close>.
\<close>

record state =
  isNegotiating :: bool
  audioLevel :: json
  isConnected :: bool
  whispers :: "whisper list"
  debugInfo :: debug_info
  wsRef :: "nat option"
  audioContextRef :: "nat option"
  mediaStreamRef :: "nat option"
  processorRef :: "nat option"
  whisperIdCounter :: nat
  sockets :: "ready_state list"
  timers :: "(nat \<times> timer_action) list"
  clock :: nat
  pendingGetUserMedia :: nat
  next_handle :: nat
  sent :: "(nat \<times> json) list"
  playbacks :: "playback list"
  released :: "release list"
  console :: "console_line list"

definition initial_state :: state where
  "initial_state =
     \<lparr>isNegotiating = False, audioLevel = JNum 0, isConnected = False, whispers = [],
      debugInfo = \<lparr>status = Disconnected, lastMessage = []\<rparr>,
      wsRef = None, audioContextRef = None, mediaStreamRef = None, processorRef = None,
      whisperIdCounter = 0,
      sockets = [], timers = [], clock = 0, pendingGetUserMedia = 0, next_handle = 0,
      sent = [], playbacks = [], released = [], console = []\<rparr>"

definition readyState :: "state \<Rightarrow> nat \<Rightarrow> ready_state option" where
  "readyState st i = (if i < length (sockets st) then Some (sockets st ! i) else None)"

definition setTimeout :: "timer_action \<Rightarrow> nat \<Rightarrow> state \<Rightarrow> state" where
  "setTimeout a delay st = st\<lparr>timers := timers st @ [(clock st + delay, a)]\<rparr>"

definition console_log :: "string \<Rightarrow> state \<Rightarrow> state" where
  "console_log s st = st\<lparr>console := console st @ [Log s]\<rparr>"

definition console_error :: "string \<Rightarrow> state \<Rightarrow> state" where
  "console_error s st = st\<lparr>console := console st @ [Err s]\<rparr>"

subsection \<open>Teardown\<close>

text \<open>\<^verbatim>\<open>stopAudioCapture\<close>, lines 196-213.\<close>

definition stopAudioCapture :: "state \<Rightarrow> state" where
  "stopAudioCapture st =
     (let st1 = console_log ''[AUDIO] Stopping audio capture'' st;
          st2 = (case processorRef st1 of
                   None \<Rightarrow> st1
                 | Some p \<Rightarrow> st1\<lparr>released := released st1 @ [Processor_disconnect p],
                                 processorRef := None\<rparr>);
          st3 = (case mediaStreamRef st2 of
                   None \<Rightarrow> st2
                 | Some m \<Rightarrow> st2\<lparr>released := released st2 @ [Track_stop m],
                                 mediaStreamRef := None\<rparr>);
          st4 = (case audioContextRef st3 of
                   None \<Rightarrow> st3
                 | Some c \<Rightarrow> st3\<lparr>released := released st3 @ [Context_close c],
                                 audioContextRef := None\<rparr>)
      in st4)"

text \<open>
  \<^verbatim>\<open>WebSocket.close()\<close>: a socket that is connecting or open starts closing; on a
  socket that is closing or closed the call does nothing.
\<close>

definition socket_close :: "nat \<Rightarrow> state \<Rightarrow> state" where
  "socket_close i st =
     (let st1 = st\<lparr>released := released st @ [Socket_close i]\<rparr>
      in if readyState st1 i = Some CONNECTING \<or> readyState st1 i = Some OPEN
         then st1\<lparr>sockets := (sockets st1)[i := CLOSING]\<rparr>
         else st1)"

text \<open>\<^verbatim>\<open>disconnectWebSocket\<close>, lines 106-117.\<close>

definition disconnectWebSocket :: "state \<Rightarrow> state" where
  "disconnectWebSocket st =
     (let st1 = (case wsRef st of
                   None \<Rightarrow> st
                 | Some i \<Rightarrow> (socket_close i (console_log ''[WS] Closing connection'' st))
                               \<lparr>wsRef := None\<rparr>);
          st2 = stopAudioCapture st1
      in st2\<lparr>isConnected := False, audioLevel := JNum 0, whispers := [],
             debugInfo := \<lparr>status = Disconnected, lastMessage = []\<rparr>\<rparr>)"

subsection \<open>Connecting\<close>

text \<open>
  \<^verbatim>\<open>connectWebSocket\<close>, lines 27-32: the part that runs at once. The four handlers it
  installs on the new socket are \<open>onopen\<close>, \<open>onmessage\<close>, \<open>onerror\<close> and \<open>onclose\<close>
  below.
\<close>

definition connectWebSocket :: "state \<Rightarrow> state" where
  "connectWebSocket st =
     (let st1 = console_log ''[WS] Connecting to ws://localhost:8000/ws'' st;
          st2 = st1\<lparr>debugInfo := (debugInfo st1)\<lparr>status := Connecting\<rparr>\<rparr>;
          st3 = st2\<lparr>whispers := []\<rparr>
      in st3\<lparr>wsRef := Some (length (sockets st3)), sockets := sockets st3 @ [CONNECTING]\<rparr>)"

text \<open>
  The effect of lines 18-25 with \<^verbatim>\<open>setIsNegotiating\<close>. React keeps the state and runs
  nothing when the new value equals the old one; otherwise it runs the cleanup the effect
  returned last time (\<^verbatim>\<open>disconnectWebSocket\<close>) and then the effect. The two buttons
  (lines 247 and 303) and the timer of line 192 call it.
\<close>

definition setIsNegotiating :: "bool \<Rightarrow> state \<Rightarrow> state" where
  "setIsNegotiating v st =
     (if isNegotiating st = v then st
      else (let st1 = disconnectWebSocket (st\<lparr>isNegotiating := v\<rparr>)
            in if v then connectWebSocket st1 else disconnectWebSocket st1))"

text \<open>The effect's first run, when the component mounts.\<close>

definition mount :: state where
  "mount = disconnectWebSocket initial_state"

text \<open>\<^verbatim>\<open>onopen\<close>, lines 34-42.\<close>

definition onopen :: "state \<Rightarrow> state" where
  "onopen st =
     (let st1 = console_log ''[WS] Connected to Backend'' st;
          st2 = st1\<lparr>debugInfo := (debugInfo st1)\<lparr>status := Connected\<rparr>\<rparr>;
          st3 = st2\<lparr>isConnected := True\<rparr>
      in setTimeout StartCapture 100 st3)"

text \<open>\<^verbatim>\<open>onerror\<close>, lines 93-96.\<close>

definition onerror :: "state \<Rightarrow> state" where
  "onerror st =
     (let st1 = console_error ''[WS] WebSocket error:'' st
      in st1\<lparr>debugInfo := (debugInfo st1)\<lparr>status := Error\<rparr>\<rparr>)"

text \<open>\<^verbatim>\<open>onclose\<close>, lines 98-103.\<close>

definition onclose :: "nat \<Rightarrow> state \<Rightarrow> state" where
  "onclose code st =
     (let st1 = console_log ''[WS] Disconnected'' st;
          st2 = st1\<lparr>debugInfo := (debugInfo st1)\<lparr>status := Disconnected_code code\<rparr>\<rparr>;
          st3 = st2\<lparr>isConnected := False\<rparr>
      in stopAudioCapture st3)"

subsection \<open>Playback and the router\<close>

definition atob_arg :: "platform \<Rightarrow> json \<Rightarrow> string" where
  "atob_arg pf v = (case v of JStr s \<Rightarrow> s | _ \<Rightarrow> ToString pf v)"

text \<open>
  \<^verbatim>\<open>playPcmChunk\<close>, lines 215-238. Every call leaves one entry in \<open>playbacks\<close>: the
  samples started, or the fault its \<^verbatim>\<open>catch\<close> logged. \<^verbatim>\<open>createBuffer\<close> throws
  \<^verbatim>\<open>NotSupportedError\<close> for a length of zero; the other calls on the audio context are
  taken to succeed, and a fault of theirs would be caught by the same \<^verbatim>\<open>catch\<close>.
\<close>

definition playPcmChunk :: "platform \<Rightarrow> json \<Rightarrow> state \<Rightarrow> state" where
  "playPcmChunk pf base64Audio st =
     (case decode_pcm (atob_arg pf base64Audio) of
        Inl e \<Rightarrow>
          (console_error ''[AUDIO] Error playing audio:'' st)
            \<lparr>playbacks := playbacks st @ [PlayFailed e]\<rparr>
      | Inr float32Data \<Rightarrow>
          if float32Data = [] then
            (console_error ''[AUDIO] Error playing audio:'' st)
              \<lparr>playbacks := playbacks st @ [PlayFailed NotSupportedError]\<rparr>
          else st\<lparr>playbacks := playbacks st @ [Played float32Data]\<rparr>)"

text \<open>Lines 58-71: the body of the whisper branch.\<close>

definition create_whisper :: "json \<Rightarrow> state \<Rightarrow> state" where
  "create_whisper t st =
     (let st1 = console_log ''[WHISPER]'' st;
          newWhisper = \<lparr>id_w = whisperIdCounter st1, text_w = t, timestamp_w = clock st1\<rparr>;
          st2 = st1\<lparr>whisperIdCounter := whisperIdCounter st1 + 1\<rparr>;
          st3 = st2\<lparr>whispers := whispers st2 @ [newWhisper]\<rparr>
      in setTimeout (ExpireWhisper (id_w newWhisper)) 10000 st3)"

text \<open>
  Lines 49-87, the \<^verbatim>\<open>try\<close> block after \<^verbatim>\<open>JSON.parse\<close> has returned \<open>data\<close>.
  \<^verbatim>\<open>null\<close> is valid JSON, and \<^verbatim>\<open>data.vol\<close> then throws \<^verbatim>\<open>TypeError\<close> before anything
  is done. Nothing else in the block throws: \<^verbatim>\<open>playPcmChunk\<close> catches its own.
\<close>

definition onmessage_try :: "platform \<Rightarrow> json \<Rightarrow> state \<Rightarrow> fault + state" where
  "onmessage_try pf data st =
     (if data = JNull then Inl TypeError
      else
        (let st1 = (case property data ''vol'' of
                      None \<Rightarrow> st
                    | Some vol \<Rightarrow> st\<lparr>audioLevel := vol\<rparr>);
             st2 = (case property data ''text'' of
                      None \<Rightarrow> st1
                    | Some t \<Rightarrow>
                        if property data ''type'' = Some (JStr ''whisper'') \<and> truthy (Some t)
                        then create_whisper t st1 else st1);
             st3 = (case property data ''audio'' of
                      None \<Rightarrow> st2
                    | Some a \<Rightarrow>
                        if property data ''type'' = Some (JStr ''audio'') \<and> truthy (Some a)
                        then playPcmChunk pf a (console_log ''[WS] Playing audio whisper'' st2)
                        else st2);
             st4 = (case property data ''audio'' of
                      None \<Rightarrow> st3
                    | Some a \<Rightarrow>
                        if truthy (Some a) \<and> \<not> truthy (property data ''type'')
                        then playPcmChunk pf a st3 else st3);
             st5 = (if truthy (property data ''text'') \<and> \<not> truthy (property data ''type'')
                    then console_log ''[WS] Gemini:'' st4 else st4)
         in Inr st5))"

text \<open>
  \<^verbatim>\<open>onmessage\<close>, lines 44-91, for a text frame. The \<^verbatim>\<open>catch\<close> of line 88 takes
  both a \<^verbatim>\<open>SyntaxError\<close> of \<^verbatim>\<open>JSON.parse\<close> and the \<^verbatim>\<open>TypeError\<close>.
\<close>

definition onmessage :: "platform \<Rightarrow> string \<Rightarrow> state \<Rightarrow> state" where
  "onmessage pf event_data st =
     (let msgPreview = (if length event_data > 50 then take 50 event_data @ ''...''
                        else event_data);
          st1 = st\<lparr>debugInfo := (debugInfo st)\<lparr>lastMessage := msgPreview\<rparr>\<rparr>
      in case JSON_parse pf event_data of
           None \<Rightarrow> console_error ''[WS] Error parsing message:'' st1
         | Some data \<Rightarrow>
             (case onmessage_try pf data st1 of
                Inl e \<Rightarrow> console_error ''[WS] Error parsing message:'' st1
              | Inr st2 \<Rightarrow> st2))"

subsection \<open>Capture\<close>

text \<open>The \<^verbatim>\<open>catch\<close> of \<^verbatim>\<open>startAudioCapture\<close>, lines 188-193.\<close>

definition capture_failed :: "string \<Rightarrow> state \<Rightarrow> state" where
  "capture_failed err_message st =
     (let st1 = console_error ''[AUDIO] Error:'' st;
          st2 = st1\<lparr>debugInfo := (debugInfo st1)\<lparr>lastMessage := ''Mic Error: '' @ err_message\<rparr>\<rparr>;
          st3 = st2\<lparr>isConnected := False\<rparr>
      in setTimeout AutoStop 2000 st3)"

text \<open>
  \<^verbatim>\<open>startAudioCapture\<close>, lines 119-134: up to the \<^verbatim>\<open>await\<close> of
  \<^verbatim>\<open>getUserMedia\<close>, where the function is suspended until the promise settles.
\<close>

definition startAudioCapture :: "platform \<Rightarrow> state \<Rightarrow> state" where
  "startAudioCapture pf st =
     (let st1 = console_log ''[AUDIO] Requesting microphone access...'' st
      in if \<not> has_getUserMedia pf
         then capture_failed ''getUserMedia is not supported in this browser'' st1
         else st1\<lparr>pendingGetUserMedia := pendingGetUserMedia st1 + 1\<rparr>)"

text \<open>
  Lines 136-186, run when \<^verbatim>\<open>getUserMedia\<close> resolves. Each browser call of this part
  can throw; \<open>flt\<close> names the one that does, with its message, and \<open>suspended\<close> says
  whether the new audio context starts suspended. The \<^verbatim>\<open>await\<close> of \<^verbatim>\<open>resume()\<close> is
  taken in the same step.
\<close>

datatype capture_stage =
  At_AudioContext
| At_resume
| At_createMediaStreamSource
| At_createScriptProcessor
| At_connect

definition throws_at :: "capture_stage \<Rightarrow> (capture_stage \<times> string) option \<Rightarrow> string option" where
  "throws_at s flt =
     (case flt of
        None \<Rightarrow> None
      | Some (s', msg) \<Rightarrow> if s' = s then Some msg else None)"

definition capture_granted :: "bool \<Rightarrow> (capture_stage \<times> string) option \<Rightarrow> state \<Rightarrow> state" where
  "capture_granted suspended flt st =
     (let st1 = console_log ''[AUDIO] Microphone access granted'' st;
          st2 = st1\<lparr>mediaStreamRef := Some (next_handle st1), next_handle := next_handle st1 + 1\<rparr>
      in case throws_at At_AudioContext flt of
           Some msg \<Rightarrow> capture_failed msg st2
         | None \<Rightarrow>
      (let st3 = st2\<lparr>audioContextRef := Some (next_handle st2), next_handle := next_handle st2 + 1\<rparr>;
           st4 = console_log ''[AUDIO] AudioContext state:'' st3
       in case (if suspended then throws_at At_resume flt else None) of
            Some msg \<Rightarrow> capture_failed msg st4
          | None \<Rightarrow>
      (let st5 = (if suspended then console_log ''[AUDIO] AudioContext resumed'' st4 else st4)
       in case throws_at At_createMediaStreamSource flt of
            Some msg \<Rightarrow> capture_failed msg st5
          | None \<Rightarrow>
      (case throws_at At_createScriptProcessor flt of
            Some msg \<Rightarrow> capture_failed msg st5
          | None \<Rightarrow>
      (let st6 = st5\<lparr>processorRef := Some (next_handle st5), next_handle := next_handle st5 + 1\<rparr>
       in case throws_at At_connect flt of
            Some msg \<Rightarrow> capture_failed msg st6
          | None \<Rightarrow> console_log ''[AUDIO] Audio pipeline connected'' st6)))))"

text \<open>The envelope of lines 171-178, before \<^verbatim>\<open>JSON.stringify\<close>.\<close>

definition envelope :: "string \<Rightarrow> json" where
  "envelope base64Data =
     JObj [(''realtime_input'',
            JObj [(''media_chunks'',
                   JArr [JObj [(''mime_type'', JStr ''audio/pcm''),
                               (''data'', JStr base64Data)]])])]"

text \<open>
  \<^verbatim>\<open>onaudioprocess\<close>, lines 153-182. \<^verbatim>\<open>send\<close> on an open socket does not throw.
\<close>

definition onaudioprocess :: "real list \<Rightarrow> state \<Rightarrow> state" where
  "onaudioprocess inputData st =
     (case wsRef st of
        None \<Rightarrow> st
      | Some i \<Rightarrow>
          if readyState st i \<noteq> Some OPEN then st
          else st\<lparr>sent := sent st @ [(i, envelope (encode_pcm inputData))]\<rparr>)"

subsection \<open>Timers and events\<close>

fun fire :: "platform \<Rightarrow> timer_action \<Rightarrow> state \<Rightarrow> state" where
  "fire pf StartCapture st = startAudioCapture pf st"
| "fire pf (ExpireWhisper k) st = st\<lparr>whispers := filter (\<lambda>w. id_w w \<noteq> k) (whispers st)\<rparr>"
| "fire pf AutoStop st = setIsNegotiating False st"

fun fire_all :: "platform \<Rightarrow> timer_action list \<Rightarrow> state \<Rightarrow> state" where
  "fire_all pf [] st = st"
| "fire_all pf (a # as) st = fire_all pf as (fire pf a st)"

text \<open>
  One millisecond passes: the timers now due leave the list and run, in the order they
  were set. A timer runs exactly when it is due.
\<close>

definition tick :: "platform \<Rightarrow> state \<Rightarrow> state" where
  "tick pf st =
     (let now = clock st + 1;
          due = filter (\<lambda>(t, a). t \<le> now) (timers st);
          rest = filter (\<lambda>(t, a). \<not> t \<le> now) (timers st)
      in fire_all pf (map snd due) (st\<lparr>clock := now, timers := rest\<rparr>))"

fun elapse :: "platform \<Rightarrow> nat \<Rightarrow> state \<Rightarrow> state" where
  "elapse pf 0 st = st"
| "elapse pf (Suc n) st = elapse pf n (tick pf st)"

text \<open>
  What can happen to the page. An event that cannot occur in the state it meets (a
  message on a socket that is not open, a capture block with no processor connected, a
  settled promise that was never pending) leaves the state as it is.
\<close>

datatype event =
  StartIntent
| StopIntent
| SocketOpen nat
| SocketMessage nat string
| SocketError nat
| SocketClose nat nat
| GetUserMediaResolved bool "(capture_stage \<times> string) option"
| GetUserMediaRejected string
| AudioProcess "real list"
| Elapse nat

fun step :: "platform \<Rightarrow> event \<Rightarrow> state \<Rightarrow> state" where
  "step pf StartIntent st = setIsNegotiating True st"
| "step pf StopIntent st = setIsNegotiating False st"
| "step pf (SocketOpen i) st =
     (if readyState st i = Some CONNECTING
      then onopen (st\<lparr>sockets := (sockets st)[i := OPEN]\<rparr>) else st)"
| "step pf (SocketMessage i event_data) st =
     (if readyState st i = Some OPEN then onmessage pf event_data st else st)"
| "step pf (SocketError i) st =
     (if readyState st i \<in> {Some CONNECTING, Some OPEN, Some CLOSING} then onerror st else st)"
| "step pf (SocketClose i code) st =
     (if readyState st i \<in> {Some CONNECTING, Some OPEN, Some CLOSING}
      then onclose code (st\<lparr>sockets := (sockets st)[i := CLOSED]\<rparr>) else st)"
| "step pf (GetUserMediaResolved suspended flt) st =
     (if 0 < pendingGetUserMedia st
      then capture_granted suspended flt (st\<lparr>pendingGetUserMedia := pendingGetUserMedia st - 1\<rparr>)
      else st)"
| "step pf (GetUserMediaRejected err_message) st =
     (if 0 < pendingGetUserMedia st
      then capture_failed err_message (st\<lparr>pendingGetUserMedia := pendingGetUserMedia st - 1\<rparr>)
      else st)"
| "step pf (AudioProcess inputData) st =
     (if processorRef st \<noteq> None then onaudioprocess inputData st else st)"
| "step pf (Elapse d) st = elapse pf d st"

fun run :: "platform \<Rightarrow> event list \<Rightarrow> state \<Rightarrow> state" where
  "run pf [] st = st"
| "run pf (e # es) st = run pf es (step pf e st)"

subsection \<open>A platform for worked examples\<close>

text \<open>
  The theorems below hold for every platform. Where one is applied to a concrete run, the
  platform is this one: its \<^verbatim>\<open>JSON.parse\<close> knows the eight message texts that follow
  and rejects every other text.
\<close>

definition dq :: "string \<Rightarrow> string" where
  "dq s = CHR 0x22 # s @ [CHR 0x22]"

text \<open>\<^verbatim>\<open>{"type":"whisper","text":"hello"}\<close>\<close>

definition msg_whisper :: string where
  "msg_whisper = ''{'' @ dq ''type'' @ '':'' @ dq ''whisper'' @ '','' @ dq ''text'' @ '':''
     @ dq ''hello'' @ ''}''"

text \<open>\<^verbatim>\<open>{"type":"audio","audio":"/n8="}\<close>\<close>

definition msg_audio :: string where
  "msg_audio = ''{'' @ dq ''type'' @ '':'' @ dq ''audio'' @ '','' @ dq ''audio'' @ '':''
     @ dq ''/n8='' @ ''}''"

text \<open>\<^verbatim>\<open>{"audio":"/n8="}\<close>\<close>

definition msg_legacy_audio :: string where
  "msg_legacy_audio = ''{'' @ dq ''audio'' @ '':'' @ dq ''/n8='' @ ''}''"

text \<open>\<^verbatim>\<open>{"text":"hi"}\<close>\<close>

definition msg_legacy_text :: string where
  "msg_legacy_text = ''{'' @ dq ''text'' @ '':'' @ dq ''hi'' @ ''}''"

text \<open>\<^verbatim>\<open>{"vol":42,"type":"audio","audio":"A"}\<close>: a base64 payload cut short.\<close>

definition msg_vol_cut_audio :: string where
  "msg_vol_cut_audio = ''{'' @ dq ''vol'' @ '':42,'' @ dq ''type'' @ '':'' @ dq ''audio'' @ '',''
     @ dq ''audio'' @ '':'' @ dq ''A'' @ ''}''"

text \<open>\<^verbatim>\<open>{"type":"audio","audio":"A"}\<close>: the same payload with no volume.\<close>

definition msg_cut_audio :: string where
  "msg_cut_audio = ''{'' @ dq ''type'' @ '':'' @ dq ''audio'' @ '','' @ dq ''audio'' @ '':''
     @ dq ''A'' @ ''}''"

text \<open>\<^verbatim>\<open>{"type":"audio","audio":"AAAA"}\<close>: three bytes, an odd length.\<close>

definition msg_odd_audio :: string where
  "msg_odd_audio = ''{'' @ dq ''type'' @ '':'' @ dq ''audio'' @ '','' @ dq ''audio'' @ '':''
     @ dq ''AAAA'' @ ''}''"

text \<open>\<^verbatim>\<open>{"vol":42,"type":"whisper","text":"hello"}\<close>\<close>

definition msg_vol_whisper :: string where
  "msg_vol_whisper = ''{'' @ dq ''vol'' @ '':42,'' @ dq ''type'' @ '':'' @ dq ''whisper'' @ '',''
     @ dq ''text'' @ '':'' @ dq ''hello'' @ ''}''"

definition test_parse :: "string \<Rightarrow> json option" where
  "test_parse s =
     (if s = msg_whisper then
        Some (JObj [(''type'', JStr ''whisper''), (''text'', JStr ''hello'')])
      else if s = msg_audio then
        Some (JObj [(''type'', JStr ''audio''), (''audio'', JStr ''/n8='')])
      else if s = msg_legacy_audio then
        Some (JObj [(''audio'', JStr ''/n8='')])
      else if s = msg_legacy_text then
        Some (JObj [(''text'', JStr ''hi'')])
      else if s = msg_vol_cut_audio then
        Some (JObj [(''vol'', JNum 42), (''type'', JStr ''audio''), (''audio'', JStr ''A'')])
      else if s = msg_cut_audio then
        Some (JObj [(''type'', JStr ''audio''), (''audio'', JStr ''A'')])
      else if s = msg_odd_audio then
        Some (JObj [(''type'', JStr ''audio''), (''audio'', JStr ''AAAA'')])
      else if s = msg_vol_whisper then
        Some (JObj [(''vol'', JNum 42), (''type'', JStr ''whisper''), (''text'', JStr ''hello'')])
      else None)"

definition test_platform :: platform where
  "test_platform =
     \<lparr>JSON_parse = test_parse, ToString = (\<lambda>v. ''[object Object]''), has_getUserMedia = True\<rparr>"

text \<open>A session just connected.\<close>

definition ex_connected :: state where
  "ex_connected = run test_platform [StartIntent, SocketOpen 0] mount"

text \<open>The same session once the capture timer has run and asked for the microphone.\<close>

definition ex_requesting :: state where
  "ex_requesting = run test_platform [StartIntent, SocketOpen 0, Elapse 100] mount"

text \<open>A session that is connected and has received a volume and a whisper.\<close>

definition ex_session :: state where
  "ex_session =
     run test_platform [StartIntent, SocketOpen 0, SocketMessage 0 msg_vol_whisper] mount"

text \<open>The same session after the server has closed the socket with code 1006.\<close>

definition ex_closed :: state where
  "ex_closed = step test_platform (SocketClose 0 1006) ex_session"

text \<open>
  A session whose socket the server closed before the capture timer ran: the microphone
  is granted afterwards and the capture pipeline runs over a closed socket.
\<close>

definition ex_late_capture :: state where
  "ex_late_capture =
     run test_platform
       [StartIntent, SocketOpen 0, SocketClose 0 1006, Elapse 100,
        GetUserMediaResolved False None] mount"

subsection \<open>Invariants of the session\<close>

text \<open>Every pending timer is due in the future.\<close>

definition timers_ahead :: "state \<Rightarrow> bool" where
  "timers_ahead st = (\<forall>(t, a) \<in> set (timers st). clock st < t)"

text \<open>
  Every live whisper has an id below the counter and its own expiry timer pending, due
  10000 ms after its timestamp; an expiry timer carries an id below the counter and, if a
  whisper of that id is live, is due 10000 ms after that whisper's timestamp; ids grow
  along the list.
\<close>

definition whispers_ok :: "state \<Rightarrow> bool" where
  "whispers_ok st =
     ((\<forall>w \<in> set (whispers st).
         id_w w < whisperIdCounter st \<and>
         (timestamp_w w + 10000, ExpireWhisper (id_w w)) \<in> set (timers st)) \<and>
      (\<forall>(t, a) \<in> set (timers st).
         case a of
           ExpireWhisper k \<Rightarrow>
             k < whisperIdCounter st \<and>
             (\<forall>w \<in> set (whispers st). id_w w = k \<longrightarrow> t = timestamp_w w + 10000)
         | _ \<Rightarrow> True) \<and>
      sorted_wrt (<) (map id_w (whispers st)))"

text \<open>
  The same while timers taken off the list wait to run in this millisecond: a live
  whisper's expiry timer is on the list or among those.
\<close>

definition whispers_pending :: "timer_action list \<Rightarrow> state \<Rightarrow> bool" where
  "whispers_pending acts st =
     ((\<forall>w \<in> set (whispers st).
         id_w w < whisperIdCounter st \<and>
         ((timestamp_w w + 10000, ExpireWhisper (id_w w)) \<in> set (timers st) \<or>
          ExpireWhisper (id_w w) \<in> set acts)) \<and>
      (\<forall>(t, a) \<in> set (timers st).
         case a of
           ExpireWhisper k \<Rightarrow>
             k < whisperIdCounter st \<and>
             (\<forall>w \<in> set (whispers st). id_w w = k \<longrightarrow> t = timestamp_w w + 10000)
         | _ \<Rightarrow> True) \<and>
      sorted_wrt (<) (map id_w (whispers st)))"

text \<open>A live session is never in status \<^verbatim>\<open>'Disconnected'\<close>.\<close>

definition session_inv :: "state \<Rightarrow> bool" where
  "session_inv st =
     (timers_ahead st \<and> whispers_ok st \<and>
      (status (debugInfo st) = Disconnected \<longrightarrow> \<not> isNegotiating st))"

text \<open>What a finished teardown leaves.\<close>

definition torn_down :: "state \<Rightarrow> bool" where
  "torn_down st =
     (\<not> isNegotiating st \<and> status (debugInfo st) = Disconnected \<and> \<not> isConnected st \<and>
      audioLevel st = JNum 0 \<and> whispers st = [] \<and> wsRef st = None \<and>
      processorRef st = None \<and> mediaStreamRef st = None \<and> audioContextRef st = None)"

text \<open>
  A step that creates no whisper and expires none: the clock and the id counter stay, new
  timers are due later and are not expiry timers, no socket disappears, the session can
  only become live together with a new socket, and the whisper list stays or is emptied,
  the latter only when the session stops or a new one starts.
\<close>

definition is_expire :: "timer_action \<Rightarrow> bool" where
  "is_expire a = (case a of ExpireWhisper k \<Rightarrow> True | _ \<Rightarrow> False)"

definition quiet :: "state \<Rightarrow> state \<Rightarrow> bool" where
  "quiet st st' =
     (clock st' = clock st \<and> whisperIdCounter st' = whisperIdCounter st \<and>
      take (length (timers st)) (timers st') = timers st \<and>
      (\<forall>(t, a) \<in> set (drop (length (timers st)) (timers st')). clock st < t \<and> \<not> is_expire a) \<and>
      length (sockets st) \<le> length (sockets st') \<and>
      (isNegotiating st' \<and> length (sockets st') = length (sockets st) \<longrightarrow> isNegotiating st) \<and>
      (status (debugInfo st') = Disconnected \<longrightarrow>
         \<not> isNegotiating st' \<or> (status (debugInfo st) = Disconnected \<and> isNegotiating st)) \<and>
      (whispers st' = whispers st \<or>
       (whispers st' = [] \<and>
        (\<not> isNegotiating st' \<or> length (sockets st) < length (sockets st')))))"

text \<open>
  How a state \<open>st'\<close> later than \<open>st\<close> relates to it: time, the id counter and the number
  of sockets do not go back, and while the session of \<open>st\<close> is still the live one (no
  stop, no new socket), every whisper of \<open>st\<close> is still listed or is 10000 ms old.
\<close>

definition later :: "state \<Rightarrow> state \<Rightarrow> bool" where
  "later st st' =
     (clock st \<le> clock st' \<and> whisperIdCounter st \<le> whisperIdCounter st' \<and>
      length (sockets st) \<le> length (sockets st') \<and>
      (isNegotiating st' \<and> length (sockets st') = length (sockets st) \<longrightarrow>
         isNegotiating st \<and>
         (\<forall>w \<in> set (whispers st).
            w \<in> set (whispers st') \<or> timestamp_w w + 10000 \<le> clock st')))"

text \<open>
  What the \<^verbatim>\<open>catch\<close> of \<^verbatim>\<open>startAudioCapture\<close> leaves in \<open>st'\<close> when capture start
  fails in \<open>st\<close> with message \<open>msg\<close>: the error on the console and in
  \<^verbatim>\<open>lastMessage\<close>, \<^verbatim>\<open>isConnected\<close> false, one new timer, the stop of line 192 due in
  2000 ms, and no new request for the microphone.
\<close>

definition failure_handled :: "string \<Rightarrow> state \<Rightarrow> state \<Rightarrow> bool" where
  "failure_handled msg st st' =
     (Err ''[AUDIO] Error:'' \<in> set (console st') \<and>
      lastMessage (debugInfo st') = ''Mic Error: '' @ msg \<and>
      \<not> isConnected st' \<and>
      timers st' = timers st @ [(clock st + 2000, AutoStop)] \<and>
      clock st' = clock st \<and>
      pendingGetUserMedia st' \<le> pendingGetUserMedia st \<and>
      isNegotiating st' = isNegotiating st)"

section \<open>Properties of the codec\<close>

subsection \<open>Base64 round trip\<close>



lemma b64_all: "list_all (\<lambda>n. b64_index (b64_char n) = Some n \<and> b64_char n \<noteq> CHR ''='' \<and> \<not> ascii_whitespace (b64_char n)) [0..<64]"
  by code_simp

lemma b64_char_props:
  "b64_index (b64_char n) = Some (n mod 64)" "b64_char n \<noteq> CHR ''=''" "\<not> ascii_whitespace (b64_char n)"
proof -
  have m: "n mod 64 \<in> set [0..<64]" by simp
  have e: "b64_char n = b64_char (n mod 64)" by (simp add: b64_char_def)
  from b64_all m have "b64_index (b64_char (n mod 64)) = Some (n mod 64) \<and> b64_char (n mod 64) \<noteq> CHR ''='' \<and> \<not> ascii_whitespace (b64_char (n mod 64))"
    unfolding list_all_iff by blast
  with e show "b64_index (b64_char n) = Some (n mod 64)" "b64_char n \<noteq> CHR ''=''" "\<not> ascii_whitespace (b64_char n)"
    by simp_all
qed

lemma eq_not_ws: "\<not> ascii_whitespace (CHR ''='')"
  by (simp add: ascii_whitespace_def)



lemma sextets_recompose_aux:
  "(r::nat) = x * 64 + y \<Longrightarrow> q = r * 64 + z \<Longrightarrow> n = q * 64 + w \<Longrightarrow>
   x * 262144 + y * 4096 + z * 64 + w = n"
  by simp

lemma sextets_recompose:
  "n div 262144 * 262144 + n div 4096 mod 64 * 4096 + n div 64 mod 64 * 64 + n mod 64 = (n::nat)"
proof -
  define q where "q = n div 64"
  define r where "r = q div 64"
  have a: "n div 4096 = r" unfolding r_def q_def by (simp add: div_mult2_eq)
  have b: "n div 262144 = r div 64" unfolding r_def q_def by (simp add: div_mult2_eq)
  have 1: "r = r div 64 * 64 + r mod 64" by simp
  have 2: "q = r * 64 + q mod 64" unfolding r_def by simp
  have 3: "n = q * 64 + n mod 64" unfolding q_def by simp
  show ?thesis unfolding a b q_def [symmetric] by (rule sextets_recompose_aux [OF 1 2 3])
qed

lemma div_add_small: "r < k \<Longrightarrow> (x * k + r) div k = (x::nat)" 
  by simp
lemma mod_add_small: "r < k \<Longrightarrow> (x * k + r) mod k = (r::nat)" 
  by simp

lemma byte3:
  fixes a b c :: "8 word"
  defines "n \<equiv> unat a * 65536 + unat b * 256 + unat c"
  shows "of_nat (n div 65536) = a" "of_nat (n div 256 mod 256) = b" "of_nat (n mod 256) = c"
proof -
  have la: "unat a < 256" and lb: "unat b < 256" and lc: "unat c < 256"
    using unsigned_less [of a] unsigned_less [of b] unsigned_less [of c] by simp_all
  have r: "unat b * 256 + unat c < 65536" using lb lc by linarith
  have e1: "n = unat a * 65536 + (unat b * 256 + unat c)" unfolding n_def by simp
  have "n div 65536 = unat a" by (subst e1) (rule div_add_small [OF r])
  then show "of_nat (n div 65536) = a" by simp
  have e2: "n = (unat a * 256 + unat b) * 256 + unat c" unfolding n_def by simp
  have d: "n div 256 = unat a * 256 + unat b" by (subst e2) (rule div_add_small [OF lc])
  have m: "n mod 256 = unat c" by (subst e2) (rule mod_add_small [OF lc])
  have "n div 256 mod 256 = unat b" unfolding d by (rule mod_add_small [OF lb])
  then show "of_nat (n div 256 mod 256) = b" by simp
  show "of_nat (n mod 256) = c" using m by simp
qed


lemma sextet_pair: "n div 262144 * 64 + n div 4096 mod 64 = (n::nat) div 4096"
proof -
  have "n div 262144 = n div 4096 div 64" by (simp add: div_mult2_eq)
  then show ?thesis by simp
qed

lemma sextet_triple: "n div 262144 * 4096 + n div 4096 mod 64 * 64 + n div 64 mod 64 = (n::nat) div 64"
proof -
  have a: "n div 4096 = n div 64 div 64" by (simp add: div_mult2_eq)
  have "n div 262144 * 4096 + n div 4096 mod 64 * 64 = (n div 262144 * 64 + n div 4096 mod 64) * 64"
    by simp
  also have "\<dots> = n div 4096 * 64" by (simp only: sextet_pair)
  finally show ?thesis unfolding a by simp
qed

lemma n24: 
  fixes a b c :: "8 word"
  shows "(unat a * 65536 + unat b * 256 + unat c) div 262144 < 64"
proof -
  have "unat a < 256" "unat b < 256" "unat c < 256"
    using unsigned_less [of a] unsigned_less [of b] unsigned_less [of c] by simp_all
  then have "unat a * 65536 + unat b * 256 + unat c < 64 * 262144" by linarith
  then show ?thesis by (simp only: less_mult_imp_div_less)
qed

lemma sextets_of_chunk4:
  "sextets_of (b64_char w # b64_char x # b64_char y # b64_char z # cs) =
     map_option (\<lambda>ss. w mod 64 # x mod 64 # y mod 64 # z mod 64 # ss) (sextets_of cs)"
  by (cases "sextets_of cs") (simp_all add: b64_char_props)

lemma strip_append: "2 \<le> length ys \<Longrightarrow> strip_padding (xs @ ys) = xs @ strip_padding ys"
proof -
  assume l: "2 \<le> length ys"
  then have 1: "ys \<noteq> []" by auto
  from l have 2: "butlast ys \<noteq> []" by (cases ys rule: rev_cases) auto
  show ?thesis using 1 2 by (simp add: strip_padding_def butlast_append Let_def)
qed

lemma btoa_length: "bs \<noteq> [] \<Longrightarrow> 2 \<le> length (btoa bs)"
  by (cases bs rule: btoa.cases) (simp_all add: Let_def)

lemma btoa_mod4: "length (btoa bs) mod 4 = 0"
  by (induction bs rule: btoa.induct) (simp_all add: Let_def)

lemma btoa_no_ws: "filter (\<lambda>c. \<not> ascii_whitespace c) (btoa bs) = btoa bs"
  by (induction bs rule: btoa.induct) (simp_all add: Let_def b64_char_props eq_not_ws)

lemma strip_chunk: "strip_padding [b64_char w, b64_char x, b64_char y, b64_char z] = [b64_char w, b64_char x, b64_char y, b64_char z]"
  by (simp add: strip_padding_def b64_char_props)

lemma strip_1: "strip_padding [b64_char w, b64_char x, CHR ''='', CHR ''=''] = [b64_char w, b64_char x]"
  by (simp add: strip_padding_def b64_char_props)

lemma strip_2: "strip_padding [b64_char w, b64_char x, b64_char y, CHR ''=''] = [b64_char w, b64_char x, b64_char y]"
  by (simp add: strip_padding_def b64_char_props)


lemma decode_one:
  fixes a :: "8 word"
  defines "n \<equiv> unat a * 65536"
  shows "decode_sextets [n div 262144 mod 64, n div 4096 mod 64 mod 64] = [a]"
proof -
  have l: "n div 262144 < 64" using n24 [of a 0 0] unfolding n_def by simp
  have "n div 262144 * 64 + n div 4096 mod 64 = n div 4096" by (rule sextet_pair)
  moreover have "n div 4096 = unat a * 16" unfolding n_def by simp
  ultimately have "(n div 262144 * 64 + n div 4096 mod 64) div 16 = unat a" by simp
  then show ?thesis using l by simp
qed

lemma decode_two:
  fixes a b :: "8 word"
  defines "n \<equiv> unat a * 65536 + unat b * 256"
  shows "decode_sextets [n div 262144 mod 64, n div 4096 mod 64 mod 64, n div 64 mod 64 mod 64] = [a, b]"
proof -
  have l: "n div 262144 < 64" using n24 [of a b 0] unfolding n_def by simp
  have lb: "unat b < 256" using unsigned_less [of b] by simp
  have "n div 262144 * 4096 + n div 4096 mod 64 * 64 + n div 64 mod 64 = n div 64"
    by (rule sextet_triple)
  moreover have "n div 64 = (unat a * 256 + unat b) * 4" unfolding n_def by simp
  ultimately have e: "(n div 262144 * 4096 + n div 4096 mod 64 * 64 + n div 64 mod 64) div 4 = unat a * 256 + unat b"
    by simp
  have "(unat a * 256 + unat b) div 256 = unat a" by (rule div_add_small [OF lb])
  moreover have "(unat a * 256 + unat b) mod 256 = unat b" by (rule mod_add_small [OF lb])
  ultimately show ?thesis using l by (simp add: e Let_def)
qed

lemma decode_three:
  fixes a b c :: "8 word"
  defines "n \<equiv> unat a * 65536 + unat b * 256 + unat c"
  shows "decode_sextets (n div 262144 mod 64 # n div 4096 mod 64 mod 64 # n div 64 mod 64 mod 64 # n mod 64 mod 64 # ss)
         = a # b # c # decode_sextets ss"
proof -
  have l: "n div 262144 < 64" using n24 [of a b c] unfolding n_def by simp
  show ?thesis using l byte3 [of a b c] 
    by (simp add: sextets_recompose Let_def n_def [symmetric])
qed

lemma strip_btoa:
  "\<exists>ss. sextets_of (strip_padding (btoa bs)) = Some ss \<and> decode_sextets ss = bs \<and>
        length (strip_padding (btoa bs)) mod 4 \<noteq> 1"
proof (induction bs rule: btoa.induct)
  case 1
  show ?case by (simp add: strip_padding_def)
next
  case (2 a)
  show ?case using decode_one [of a] by (simp add: Let_def strip_1 b64_char_props)
next
  case (3 a b)
  show ?case using decode_two [of a b] by (simp add: Let_def strip_2 b64_char_props)
next
  case (4 a b c bs)
  define n where "n = unat a * 65536 + unat b * 256 + unat c"
  define chunk where "chunk = [b64_char (n div 262144), b64_char (n div 4096 mod 64),
          b64_char (n div 64 mod 64), b64_char (n mod 64)]"
  have bt: "btoa (a # b # c # bs) = chunk @ btoa bs"
    by (simp add: Let_def n_def chunk_def)
  from 4 obtain ss where ss: "sextets_of (strip_padding (btoa bs)) = Some ss"
    "decode_sextets ss = bs" "length (strip_padding (btoa bs)) mod 4 \<noteq> 1" by blast
  have st: "strip_padding (chunk @ btoa bs) = chunk @ strip_padding (btoa bs)"
  proof (cases "bs = []")
    case True
    then show ?thesis using strip_chunk by (simp add: chunk_def strip_padding_def)
  next
    case False
    then show ?thesis by (simp add: strip_append btoa_length)
  qed
  have sx: "sextets_of (chunk @ strip_padding (btoa bs)) =
      Some (n div 262144 mod 64 # n div 4096 mod 64 mod 64 # n div 64 mod 64 mod 64 # n mod 64 mod 64 # ss)"
    unfolding chunk_def using ss(1) by (simp add: sextets_of_chunk4 del: sextets_of.simps)
  have dc: "decode_sextets (n div 262144 mod 64 # n div 4096 mod 64 mod 64 # n div 64 mod 64 mod 64 # n mod 64 mod 64 # ss)
      = a # b # c # bs"
    unfolding n_def using decode_three [of a b c ss] ss(2) by simp
  have ln: "length (chunk @ strip_padding (btoa bs)) mod 4 \<noteq> 1"
    using ss(3) by (simp add: chunk_def)
  show ?case unfolding bt st using sx dc ln by blast
qed

lemma atob_btoa: "atob (btoa bs) = Inr bs"
proof -
  obtain ss where ss: "sextets_of (strip_padding (btoa bs)) = Some ss"
    "decode_sextets ss = bs" "length (strip_padding (btoa bs)) mod 4 \<noteq> 1"
    using strip_btoa by blast
  then show ?thesis
    by (simp add: atob_def btoa_no_ws btoa_mod4 Let_def)
qed

lemma getInt16_int16_bytes: "getInt16 (int16_bytes w @ bs) 0 = w"
  unfolding getInt16_def int16_bytes_def
  by (rule bit_word_eqI) (auto simp: bit_simps nth_append)

lemma bytes_to_float_step:
  "bytes_to_float (int16_bytes w @ bs) = int16_to_float w # bytes_to_float bs"
proof -
  have u: "[0 ..< Suc (length bs div 2)] = 0 # map Suc [0 ..< length bs div 2]"
    by (subst upt_conv_Cons) (simp_all add: map_Suc_upt del: upt_Suc)
  have "bytes_to_float (int16_bytes w @ bs) =
     map (\<lambda>i. int16_to_float (getInt16 (int16_bytes w @ bs) (i * 2))) [0 ..< Suc (length bs div 2)]"
    by (simp add: bytes_to_float_def int16_bytes_def)
  also have "\<dots> = int16_to_float (getInt16 (int16_bytes w @ bs) 0) #
       map (\<lambda>i. int16_to_float (getInt16 (int16_bytes w @ bs) (Suc i * 2))) [0 ..< length bs div 2]"
    unfolding u by (simp add: comp_def)
  also have "\<dots> = int16_to_float w # bytes_to_float bs"
  proof -
    have h: "getInt16 (int16_bytes w @ bs) 0 = w" by (rule getInt16_int16_bytes)
    have t: "\<And>i. getInt16 (int16_bytes w @ bs) (Suc i * 2) = getInt16 bs (i * 2)"
      by (simp add: int16_bytes_def getInt16_def)
    show ?thesis unfolding h t by (simp add: bytes_to_float_def)
  qed
  finally show ?thesis .
qed

lemma bytes_to_float_pcm_bytes: "bytes_to_float (pcm_bytes ws) = map int16_to_float ws"
proof (induction ws)
  case Nil
  show ?case by (simp add: bytes_to_float_def)
next
  case (Cons w ws)
  then show ?case by (simp add: bytes_to_float_step)
qed

lemma decode_encode: "decode_pcm (encode_pcm xs) = Inr (map (\<lambda>x. int16_to_float (pcm_sample x)) xs)"
proof -
  have "float_to_pcm xs = map pcm_sample xs" by (induction xs) simp_all
  then show ?thesis
    by (simp add: decode_pcm_def encode_pcm_def atob_btoa bytes_to_float_pcm_bytes comp_def)
qed


lemma clamp_sample_range: "- 1 \<le> clamp_sample x" "clamp_sample x \<le> 1"
  by (simp_all add: clamp_sample_def)

lemma js_trunc_scaled_range:
  assumes "- 1 \<le> s" "s \<le> 1"
  shows "- 32768 \<le> js_trunc (scale_sample s)" "js_trunc (scale_sample s) < 32768"
proof -
  show "- 32768 \<le> js_trunc (scale_sample s)"
  proof (cases "s < 0")
    case True
    have "(- 32768 :: real) \<le> s * 32768" using assms by simp
    then have "- 32768 \<le> \<lceil>s * 32768\<rceil>" by linarith
    then show ?thesis using True by (simp add: js_trunc_def scale_sample_def mult_less_0_iff)
  next
    case False
    then have "0 \<le> s * 32767" by simp
    then have "0 \<le> \<lfloor>s * 32767\<rfloor>" by simp
    then show ?thesis using False by (simp add: js_trunc_def scale_sample_def mult_less_0_iff)
  qed
  show "js_trunc (scale_sample s) < 32768"
  proof (cases "s < 0")
    case True
    then have "s * 32768 \<le> 0" by simp
    then have "\<lceil>s * 32768\<rceil> \<le> 0" by (simp add: ceiling_le_iff)
    then show ?thesis using True by (simp add: js_trunc_def scale_sample_def mult_less_0_iff)
  next
    case False
    have "s * 32767 \<le> 32767" using assms by simp
    then have "\<lfloor>s * 32767\<rfloor> \<le> 32767" by (simp add: floor_le_iff)
    then show ?thesis using False by (simp add: js_trunc_def scale_sample_def mult_less_0_iff)
  qed
qed

lemma sint_pcm_sample: "sint (pcm_sample x) = js_trunc (scale_sample (clamp_sample x))"
  unfolding pcm_sample_def ToInt16_def
  using js_trunc_scaled_range [OF clamp_sample_range, of x] by (simp add: int_word_sint)

lemma quantise_negative:
  assumes "- 1 \<le> s" "s < 0"
  shows "s \<le> real_of_int (js_trunc (scale_sample s)) / 32768"
    "real_of_int (js_trunc (scale_sample s)) / 32768 - s < 1 / 32768"
proof -
  have e: "js_trunc (scale_sample s) = \<lceil>s * 32768\<rceil>"
    using assms by (simp add: js_trunc_def scale_sample_def mult_less_0_iff)
  have "s * 32768 \<le> real_of_int \<lceil>s * 32768\<rceil>" by (rule le_of_int_ceiling)
  then show "s \<le> real_of_int (js_trunc (scale_sample s)) / 32768" unfolding e by simp
  have "real_of_int \<lceil>s * 32768\<rceil> < s * 32768 + 1" by linarith
  then show "real_of_int (js_trunc (scale_sample s)) / 32768 - s < 1 / 32768" unfolding e
    by (simp add: field_simps)
qed

lemma quantise_nonnegative:
  assumes "0 \<le> s" "s \<le> 1"
  shows "real_of_int (js_trunc (scale_sample s)) / 32768 \<le> s"
    "s - real_of_int (js_trunc (scale_sample s)) / 32768 < 2 / 32768"
proof -
  have e: "js_trunc (scale_sample s) = \<lfloor>s * 32767\<rfloor>"
    using assms by (simp add: js_trunc_def scale_sample_def mult_less_0_iff)
  have "real_of_int \<lfloor>s * 32767\<rfloor> \<le> s * 32767" by (rule of_int_floor_le)
  also have "\<dots> \<le> s * 32768" using assms by simp
  finally show "real_of_int (js_trunc (scale_sample s)) / 32768 \<le> s" unfolding e by simp
  have "s * 32767 < real_of_int \<lfloor>s * 32767\<rfloor> + 1" by linarith
  then have "s * 32768 - real_of_int \<lfloor>s * 32767\<rfloor> < s + 1" by linarith
  also have "\<dots> \<le> 2" using assms by simp
  finally show "s - real_of_int (js_trunc (scale_sample s)) / 32768 < 2 / 32768" unfolding e
    by (simp add: field_simps)
qed

section \<open>Properties of the session\<close>

subsection \<open>Teardown and quiet steps\<close>


lemmas basic_defs = setTimeout_def console_log_def console_error_def

lemma stopAudioCapture_eq:
  "stopAudioCapture st =
     st\<lparr>console := console st @ [Log ''[AUDIO] Stopping audio capture''],
        released := released st
          @ (case processorRef st of None \<Rightarrow> [] | Some p \<Rightarrow> [Processor_disconnect p])
          @ (case mediaStreamRef st of None \<Rightarrow> [] | Some m \<Rightarrow> [Track_stop m])
          @ (case audioContextRef st of None \<Rightarrow> [] | Some c \<Rightarrow> [Context_close c]),
        processorRef := None, mediaStreamRef := None, audioContextRef := None\<rparr>"
  by (cases "processorRef st"; cases "mediaStreamRef st"; cases "audioContextRef st")
     (simp_all add: stopAudioCapture_def basic_defs)

lemma stopAudioCapture_idle:
  "processorRef st = None \<Longrightarrow> mediaStreamRef st = None \<Longrightarrow> audioContextRef st = None \<Longrightarrow>
   stopAudioCapture st = st\<lparr>console := console st @ [Log ''[AUDIO] Stopping audio capture'']\<rparr>"
  by (simp add: stopAudioCapture_def basic_defs)

lemma disconnect_post:
  "status (debugInfo (disconnectWebSocket st)) = Disconnected"
  "lastMessage (debugInfo (disconnectWebSocket st)) = []"
  "\<not> isConnected (disconnectWebSocket st)"
  "audioLevel (disconnectWebSocket st) = JNum 0"
  "whispers (disconnectWebSocket st) = []"
  "wsRef (disconnectWebSocket st) = None"
  "processorRef (disconnectWebSocket st) = None"
  "mediaStreamRef (disconnectWebSocket st) = None"
  "audioContextRef (disconnectWebSocket st) = None"
  by (simp_all add: disconnectWebSocket_def stopAudioCapture_eq socket_close_def basic_defs Let_def split: option.splits)

lemma disconnect_frame:
  "isNegotiating (disconnectWebSocket st) = isNegotiating st"
  "whisperIdCounter (disconnectWebSocket st) = whisperIdCounter st"
  "timers (disconnectWebSocket st) = timers st"
  "clock (disconnectWebSocket st) = clock st"
  "pendingGetUserMedia (disconnectWebSocket st) = pendingGetUserMedia st"
  "length (sockets (disconnectWebSocket st)) = length (sockets st)"
  by (simp_all add: disconnectWebSocket_def stopAudioCapture_eq socket_close_def basic_defs Let_def split: option.splits)

lemma connect_fields:
  "status (debugInfo (connectWebSocket st)) = Connecting"
  "whispers (connectWebSocket st) = []"
  "isNegotiating (connectWebSocket st) = isNegotiating st"
  "whisperIdCounter (connectWebSocket st) = whisperIdCounter st"
  "timers (connectWebSocket st) = timers st"
  "clock (connectWebSocket st) = clock st"
  "length (sockets (connectWebSocket st)) = Suc (length (sockets st))"
  by (simp_all add: connectWebSocket_def basic_defs Let_def)

lemma quiet_refl: "quiet st st"
  by (simp add: quiet_def)

lemma quiet_timers:
  "quiet st st' \<Longrightarrow> timers st' = timers st @ drop (length (timers st)) (timers st')"
  unfolding quiet_def by (metis append_take_drop_id)

lemma quiet_trans:
  assumes ab: "quiet a b" and bc: "quiet b c"
  shows "quiet a c"
proof -
  define eb where "eb = drop (length (timers a)) (timers b)"
  define ec where "ec = drop (length (timers b)) (timers c)"
  have tb: "timers b = timers a @ eb" unfolding eb_def by (rule quiet_timers [OF ab])
  have "timers c = timers b @ ec" unfolding ec_def by (rule quiet_timers [OF bc])
  then have tc: "timers c = timers a @ eb @ ec" by (simp add: tb)
  have eb: "\<forall>(t, x) \<in> set eb. clock a < t \<and> \<not> is_expire x"
    using ab unfolding quiet_def eb_def by blast
  have ec: "\<forall>(t, x) \<in> set ec. clock a < t \<and> \<not> is_expire x"
    using ab bc unfolding quiet_def ec_def by simp
  have 1: "take (length (timers a)) (timers c) = timers a" unfolding tc by simp
  have 2: "\<forall>(t, x) \<in> set (drop (length (timers a)) (timers c)). clock a < t \<and> \<not> is_expire x"
    unfolding tc using eb ec by auto
  have 3: "clock c = clock a" "whisperIdCounter c = whisperIdCounter a"
    "length (sockets a) \<le> length (sockets c)"
    using ab bc unfolding quiet_def by simp_all
  have l: "length (sockets a) \<le> length (sockets b)" "length (sockets b) \<le> length (sockets c)"
    using ab bc unfolding quiet_def by simp_all
  have 4: "isNegotiating c \<and> length (sockets c) = length (sockets a) \<longrightarrow> isNegotiating a"
    using ab bc l unfolding quiet_def by (metis le_antisym)
  have 5: "status (debugInfo c) = Disconnected \<longrightarrow>
         \<not> isNegotiating c \<or> (status (debugInfo a) = Disconnected \<and> isNegotiating a)"
    using ab bc unfolding quiet_def by blast
  have 6: "whispers c = whispers a \<or>
       (whispers c = [] \<and> (\<not> isNegotiating c \<or> length (sockets a) < length (sockets c)))"
  proof (cases "whispers c = whispers b")
    case True
    show ?thesis
    proof (cases "whispers b = whispers a")
      case True
      with \<open>whispers c = whispers b\<close> show ?thesis by simp
    next
      case False
      then have b: "whispers b = []" "\<not> isNegotiating b \<or> length (sockets a) < length (sockets b)"
        using ab unfolding quiet_def by auto
      have "\<not> isNegotiating c \<or> length (sockets a) < length (sockets c)"
      proof (cases "length (sockets a) < length (sockets b)")
        case True
        then show ?thesis using l by linarith
      next
        case False
        then have nb: "\<not> isNegotiating b" using b by simp
        show ?thesis
        proof (cases "length (sockets c) = length (sockets b)")
          case True
          then have "\<not> isNegotiating c" using bc nb unfolding quiet_def by blast
          then show ?thesis by simp
        next
          case False
          then show ?thesis using l by linarith
        qed
      qed
      then show ?thesis using True b by simp
    qed
  next
    case False
    then have "whispers c = []" "\<not> isNegotiating c \<or> length (sockets b) < length (sockets c)"
      using bc unfolding quiet_def by auto
    then show ?thesis using l by auto
  qed
  show ?thesis unfolding quiet_def using 1 2 3 4 5 6 by blast
qed

lemma quiet_setIsNegotiating: "quiet st (setIsNegotiating v st)"
  by (simp add: quiet_def setIsNegotiating_def Let_def disconnect_post disconnect_frame connect_fields)

lemma quiet_onopen: "quiet st (onopen (st\<lparr>sockets := (sockets st)[i := OPEN]\<rparr>))"
  by (simp add: quiet_def onopen_def basic_defs Let_def is_expire_def)

lemma quiet_onerror: "quiet st (onerror st)"
  by (simp add: quiet_def onerror_def basic_defs Let_def)

lemma quiet_onclose: "quiet st (onclose code (st\<lparr>sockets := (sockets st)[i := CLOSED]\<rparr>))"
  by (simp add: quiet_def onclose_def stopAudioCapture_eq basic_defs Let_def)

lemma quiet_playPcmChunk: "quiet st (playPcmChunk pf a st)"
  by (simp add: quiet_def playPcmChunk_def basic_defs Let_def split: sum.splits)

lemma quiet_capture_failed: "quiet st (capture_failed msg st)"
  by (simp add: quiet_def capture_failed_def basic_defs Let_def is_expire_def)

lemma quiet_startAudioCapture: "quiet st (startAudioCapture pf st)"
  by (simp add: quiet_def startAudioCapture_def capture_failed_def basic_defs Let_def is_expire_def)

lemma quiet_capture_granted:
  "quiet st (capture_granted suspended flt (st\<lparr>pendingGetUserMedia := n\<rparr>))"
proof (cases flt)
  case None
  then show ?thesis
    by (simp add: quiet_def capture_granted_def throws_at_def basic_defs Let_def is_expire_def)
next
  case (Some p)
  obtain s msg where p: "p = (s, msg)" by (cases p)
  show ?thesis unfolding Some p
    by (cases s; cases suspended)
       (simp_all add: quiet_def capture_granted_def throws_at_def capture_failed_def basic_defs
          Let_def is_expire_def)
qed

lemma quiet_capture_rejected:
  "quiet st (capture_failed msg (st\<lparr>pendingGetUserMedia := n\<rparr>))"
  by (simp add: quiet_def capture_failed_def basic_defs Let_def is_expire_def)

lemma quiet_onaudioprocess: "quiet st (onaudioprocess blk st)"
  by (simp add: quiet_def onaudioprocess_def split: option.splits)


lemma quiet_console_log: "quiet st (console_log s st)"
  by (simp add: quiet_def basic_defs)

lemma quiet_audioLevel: "quiet st (st\<lparr>audioLevel := v\<rparr>)"
  by (simp add: quiet_def)

lemma quiet_lastMessage: "quiet st (st\<lparr>debugInfo := (debugInfo st)\<lparr>lastMessage := m\<rparr>\<rparr>)"
  by (simp add: quiet_def)

lemma quiet_console_error: "quiet st (console_error s st)"
  by (simp add: quiet_def basic_defs)

lemma later_refl: "later st st"
  by (simp add: later_def)

lemma later_trans:
  assumes ab: "later a b" and bc: "later b c"
  shows "later a c"
proof -
  have m: "clock a \<le> clock c" "whisperIdCounter a \<le> whisperIdCounter c"
    "length (sockets a) \<le> length (sockets c)"
    using ab bc unfolding later_def by simp_all
  have l: "length (sockets a) \<le> length (sockets b)" "length (sockets b) \<le> length (sockets c)"
    "clock b \<le> clock c"
    using ab bc unfolding later_def by simp_all
  have "isNegotiating a \<and> (\<forall>w \<in> set (whispers a).
            w \<in> set (whispers c) \<or> timestamp_w w + 10000 \<le> clock c)"
    if h: "isNegotiating c" "length (sockets c) = length (sockets a)"
  proof -
    from h l have e: "length (sockets c) = length (sockets b)" "length (sockets b) = length (sockets a)"
      by simp_all
    from bc h e have b: "isNegotiating b"
      "\<forall>w \<in> set (whispers b). w \<in> set (whispers c) \<or> timestamp_w w + 10000 \<le> clock c"
      unfolding later_def by simp_all
    from ab b e have a: "isNegotiating a"
      "\<forall>w \<in> set (whispers a). w \<in> set (whispers b) \<or> timestamp_w w + 10000 \<le> clock b"
      unfolding later_def by simp_all
    show ?thesis
    proof (intro conjI ballI)
      show "isNegotiating a" by (rule a)
    next
      fix w assume "w \<in> set (whispers a)"
      with a have "w \<in> set (whispers b) \<or> timestamp_w w + 10000 \<le> clock b" by blast
      then show "w \<in> set (whispers c) \<or> timestamp_w w + 10000 \<le> clock c"
        using b l by auto
    qed
  qed
  then show ?thesis unfolding later_def using m by blast
qed

lemma later_quiet:
  assumes q: "quiet st st'"
  shows "later st st'"
proof -
  have "isNegotiating st \<and> (\<forall>w \<in> set (whispers st).
            w \<in> set (whispers st') \<or> timestamp_w w + 10000 \<le> clock st')"
    if h: "isNegotiating st'" "length (sockets st') = length (sockets st)"
  proof -
    from q h have "isNegotiating st" unfolding quiet_def by blast
    moreover from q h have "whispers st' = whispers st" unfolding quiet_def by auto
    ultimately show ?thesis by simp
  qed
  moreover have "clock st \<le> clock st'" "whisperIdCounter st \<le> whisperIdCounter st'"
    "length (sockets st) \<le> length (sockets st')"
    using q unfolding quiet_def by simp_all
  ultimately show ?thesis unfolding later_def by blast
qed

lemma timers_ahead_quiet:
  assumes i: "timers_ahead st" and q: "quiet st st'"
  shows "timers_ahead st'"
proof -
  have t: "timers st' = timers st @ drop (length (timers st)) (timers st')"
    by (rule quiet_timers [OF q])
  have c: "clock st' = clock st" using q unfolding quiet_def by simp
  have "\<forall>(t, a) \<in> set (drop (length (timers st)) (timers st')). clock st < t"
    using q unfolding quiet_def by fastforce
  then show ?thesis using i unfolding timers_ahead_def c by (subst t) auto
qed

lemma whispers_pending_quiet:
  assumes i: "whispers_pending acts st" and q: "quiet st st'"
  shows "whispers_pending acts st'"
proof -
  define ex where "ex = drop (length (timers st)) (timers st')"
  have t: "timers st' = timers st @ ex"
    unfolding ex_def by (rule quiet_timers [OF q])
  have c: "whisperIdCounter st' = whisperIdCounter st" using q unfolding quiet_def by simp
  have e: "\<forall>(t, a) \<in> set ex. \<not> is_expire a"
    using q unfolding quiet_def ex_def by fastforce
  have w: "whispers st' = whispers st \<or> whispers st' = []"
    using q unfolding quiet_def by blast
  have 1: "\<forall>w \<in> set (whispers st').
         id_w w < whisperIdCounter st' \<and>
         ((timestamp_w w + 10000, ExpireWhisper (id_w w)) \<in> set (timers st') \<or>
          ExpireWhisper (id_w w) \<in> set acts)"
    using i w unfolding whispers_pending_def c t by auto
  have 2: "\<forall>(t, a) \<in> set (timers st').
         case a of
           ExpireWhisper k \<Rightarrow>
             k < whisperIdCounter st' \<and>
             (\<forall>w \<in> set (whispers st'). id_w w = k \<longrightarrow> t = timestamp_w w + 10000)
         | _ \<Rightarrow> True"
  proof (intro ballI, clarify)
    fix tm a assume m: "(tm, a) \<in> set (timers st')"
    show "case a of
           ExpireWhisper k \<Rightarrow>
             k < whisperIdCounter st' \<and>
             (\<forall>w \<in> set (whispers st'). id_w w = k \<longrightarrow> tm = timestamp_w w + 10000)
         | _ \<Rightarrow> True"
    proof (cases "(tm, a) \<in> set (timers st)")
      case True
      with i have "case a of
           ExpireWhisper k \<Rightarrow>
             k < whisperIdCounter st \<and>
             (\<forall>w \<in> set (whispers st). id_w w = k \<longrightarrow> tm = timestamp_w w + 10000)
         | _ \<Rightarrow> True" unfolding whispers_pending_def by blast
      then show ?thesis using w unfolding c by (auto split: timer_action.splits)
    next
      case False
      with m t have "(tm, a) \<in> set ex" by simp
      with e have "\<not> is_expire a" by blast
      then show ?thesis by (simp add: is_expire_def split: timer_action.splits)
    qed
  qed
  have 3: "sorted_wrt (<) (map id_w (whispers st'))"
    using i w unfolding whispers_pending_def by auto
  show ?thesis unfolding whispers_pending_def using 1 2 3 by blast
qed

lemma whispers_ok_pending: "whispers_ok st = whispers_pending [] st"
  by (simp add: whispers_ok_def whispers_pending_def)

lemma whispers_ok_quiet: "whispers_ok st \<Longrightarrow> quiet st st' \<Longrightarrow> whispers_ok st'"
  unfolding whispers_ok_pending by (rule whispers_pending_quiet)

lemma session_inv_quiet:
  assumes i: "session_inv st" and q: "quiet st st'"
  shows "session_inv st'"
proof -
  have "status (debugInfo st') = Disconnected \<longrightarrow> \<not> isNegotiating st'"
    using i q unfolding session_inv_def quiet_def by blast
  then show ?thesis
    using i timers_ahead_quiet [OF _ q] whispers_ok_quiet [OF _ q]
    unfolding session_inv_def by blast
qed

subsection \<open>Whispers and the router\<close>


lemma create_whisper_fields:
  "whispers (create_whisper t st) =
     whispers st @ [\<lparr>id_w = whisperIdCounter st, text_w = t, timestamp_w = clock st\<rparr>]"
  "whisperIdCounter (create_whisper t st) = whisperIdCounter st + 1"
  "timers (create_whisper t st) =
     timers st @ [(clock st + 10000, ExpireWhisper (whisperIdCounter st))]"
  "clock (create_whisper t st) = clock st"
  "sockets (create_whisper t st) = sockets st"
  "isNegotiating (create_whisper t st) = isNegotiating st"
  "debugInfo (create_whisper t st) = debugInfo st"
  "audioLevel (create_whisper t st) = audioLevel st"
  "playbacks (create_whisper t st) = playbacks st"
  by (simp_all add: create_whisper_def basic_defs Let_def)

lemma later_create_whisper: "later st (create_whisper t st)"
  by (simp add: later_def create_whisper_fields)

lemma timers_ahead_create_whisper: "timers_ahead st \<Longrightarrow> timers_ahead (create_whisper t st)"
  by (auto simp: timers_ahead_def create_whisper_fields)

lemma whispers_ok_create_whisper:
  assumes i: "whispers_ok st"
  shows "whispers_ok (create_whisper t st)"
proof -
  define n where "n = whisperIdCounter st"
  have a: "\<forall>w \<in> set (whispers st).
         id_w w < n \<and> (timestamp_w w + 10000, ExpireWhisper (id_w w)) \<in> set (timers st)"
    and s: "sorted_wrt (<) (map id_w (whispers st))"
    using i unfolding whispers_ok_def n_def by blast+
  have b: "case a of
           ExpireWhisper k \<Rightarrow>
             k < n \<and> (\<forall>w \<in> set (whispers st). id_w w = k \<longrightarrow> tm = timestamp_w w + 10000)
         | _ \<Rightarrow> True" if "(tm, a) \<in> set (timers st)" for tm a
    using i that unfolding whispers_ok_def n_def by blast
  have 1: "\<forall>w \<in> set (whispers (create_whisper t st)).
         id_w w < whisperIdCounter (create_whisper t st) \<and>
         (timestamp_w w + 10000, ExpireWhisper (id_w w)) \<in> set (timers (create_whisper t st))"
    using a unfolding create_whisper_fields n_def [symmetric] by auto
  have 2: "\<forall>(tm, a) \<in> set (timers (create_whisper t st)).
         case a of
           ExpireWhisper k \<Rightarrow>
             k < whisperIdCounter (create_whisper t st) \<and>
             (\<forall>w \<in> set (whispers (create_whisper t st)). id_w w = k \<longrightarrow> tm = timestamp_w w + 10000)
         | _ \<Rightarrow> True"
  proof (intro ballI, clarify)
    fix tm a assume m: "(tm, a) \<in> set (timers (create_whisper t st))"
    show "case a of
           ExpireWhisper k \<Rightarrow>
             k < whisperIdCounter (create_whisper t st) \<and>
             (\<forall>w \<in> set (whispers (create_whisper t st)). id_w w = k \<longrightarrow> tm = timestamp_w w + 10000)
         | _ \<Rightarrow> True"
    proof (cases "(tm, a) \<in> set (timers st)")
      case True
      from b [OF True] show ?thesis
        unfolding create_whisper_fields n_def [symmetric]
        by (auto split: timer_action.splits)
    next
      case False
      with m have e: "tm = clock st + 10000" "a = ExpireWhisper n"
        unfolding create_whisper_fields n_def by auto
      show ?thesis unfolding e create_whisper_fields n_def [symmetric] using a by auto
    qed
  qed
  have 3: "sorted_wrt (<) (map id_w (whispers (create_whisper t st)))"
    using s a unfolding create_whisper_fields n_def [symmetric]
    by (auto simp: sorted_wrt_append)
  show ?thesis unfolding whispers_ok_def using 1 2 3 by blast
qed

lemma session_inv_create_whisper:
  "session_inv st \<Longrightarrow> session_inv (create_whisper t st)"
  unfolding session_inv_def
  using timers_ahead_create_whisper whispers_ok_create_whisper
  by (simp add: create_whisper_fields)

text \<open>The router is a quiet step, at most one new whisper, and a quiet step.\<close>

lemma onmessage_shape:
  "\<exists>a b. quiet st a \<and> (b = a \<or> (\<exists>t. b = create_whisper t a)) \<and> quiet b (onmessage pf d st)"
proof -
  define m where "m = (if length d > 50 then take 50 d @ ''...'' else d)"
  define s0 where "s0 = st\<lparr>debugInfo := (debugInfo st)\<lparr>lastMessage := m\<rparr>\<rparr>"
  have q0: "quiet st s0" unfolding s0_def by (rule quiet_lastMessage)
  have fail: ?thesis if "onmessage pf d st = console_error ''[WS] Error parsing message:'' s0"
  proof -
    have "quiet s0 (onmessage pf d st)" unfolding that by (rule quiet_console_error)
    with q0 show ?thesis by blast
  qed
  show ?thesis
  proof (cases "JSON_parse pf d")
    case None
    then show ?thesis by (intro fail) (simp add: onmessage_def Let_def m_def s0_def)
  next
    case (Some data)
    show ?thesis
    proof (cases "data = JNull")
      case True
      with Some show ?thesis
        by (intro fail) (simp add: onmessage_def onmessage_try_def Let_def m_def s0_def)
    next
      case False
      define s1 where "s1 = (case property data ''vol'' of
                      None \<Rightarrow> s0
                    | Some vol \<Rightarrow> s0\<lparr>audioLevel := vol\<rparr>)"
      define s2 where "s2 = (case property data ''text'' of
                      None \<Rightarrow> s1
                    | Some t \<Rightarrow>
                        if property data ''type'' = Some (JStr ''whisper'') \<and> truthy (Some t)
                        then create_whisper t s1 else s1)"
      define s3 where "s3 = (case property data ''audio'' of
                      None \<Rightarrow> s2
                    | Some a \<Rightarrow>
                        if property data ''type'' = Some (JStr ''audio'') \<and> truthy (Some a)
                        then playPcmChunk pf a (console_log ''[WS] Playing audio whisper'' s2)
                        else s2)"
      define s4 where "s4 = (case property data ''audio'' of
                      None \<Rightarrow> s3
                    | Some a \<Rightarrow>
                        if truthy (Some a) \<and> \<not> truthy (property data ''type'')
                        then playPcmChunk pf a s3 else s3)"
      define s5 where "s5 = (if truthy (property data ''text'') \<and> \<not> truthy (property data ''type'')
                    then console_log ''[WS] Gemini:'' s4 else s4)"
      have r: "onmessage pf d st = s5"
        unfolding onmessage_def onmessage_try_def Let_def s5_def s4_def s3_def s2_def s1_def
          s0_def m_def Some
        using False by (simp only: option.case if_False sum.case)
      have q1: "quiet s0 s1" unfolding s1_def
        by (simp add: quiet_refl quiet_audioLevel split: option.splits)
      have c2: "s2 = s1 \<or> (\<exists>t. s2 = create_whisper t s1)" unfolding s2_def
        by (auto split: option.splits)
      have q3: "quiet s2 s3" unfolding s3_def
        using quiet_trans [OF quiet_console_log quiet_playPcmChunk]
        by (simp add: quiet_refl split: option.splits)
      have q4: "quiet s3 s4" unfolding s4_def
        by (simp add: quiet_refl quiet_playPcmChunk split: option.splits)
      have q5: "quiet s4 s5" unfolding s5_def
        by (simp add: quiet_refl quiet_console_log)
      have "quiet st s1" by (rule quiet_trans [OF q0 q1])
      moreover have "quiet s2 s5" by (rule quiet_trans [OF q3 quiet_trans [OF q4 q5]])
      ultimately show ?thesis using c2 unfolding r by blast
    qed
  qed
qed

lemma session_inv_onmessage:
  assumes "session_inv st"
  shows "session_inv (onmessage pf d st)"
proof -
  obtain a b where s: "quiet st a" "b = a \<or> (\<exists>t. b = create_whisper t a)"
    "quiet b (onmessage pf d st)" using onmessage_shape by blast
  have "session_inv a" by (rule session_inv_quiet [OF assms s(1)])
  then have "session_inv b" using s(2) session_inv_create_whisper by blast
  then show ?thesis by (rule session_inv_quiet [OF _ s(3)])
qed

lemma later_onmessage: "later st (onmessage pf d st)"
proof -
  obtain a b where s: "quiet st a" "b = a \<or> (\<exists>t. b = create_whisper t a)"
    "quiet b (onmessage pf d st)" using onmessage_shape by blast
  have "later a b" using s(2) later_refl later_create_whisper by blast
  then show ?thesis
    using later_trans [OF later_quiet [OF s(1)]] later_trans [OF _ later_quiet [OF s(3)]]
    by blast
qed


subsection \<open>Timers\<close>

lemma fire_quiet: "\<not> is_expire a \<Longrightarrow> quiet st (fire pf a st)"
  by (cases a) (simp_all add: is_expire_def quiet_startAudioCapture quiet_setIsNegotiating)

lemma fire_expire: "fire pf (ExpireWhisper k) st = st\<lparr>whispers := filter (\<lambda>w. id_w w \<noteq> k) (whispers st)\<rparr>"
  by simp

lemma later_fire:
  assumes e: "\<forall>w \<in> set (whispers st). ExpireWhisper (id_w w) = a \<longrightarrow> timestamp_w w + 10000 \<le> clock st"
  shows "later st (fire pf a st)"
proof (cases "is_expire a")
  case False
  then show ?thesis by (intro later_quiet fire_quiet)
next
  case True
  then obtain k where a: "a = ExpireWhisper k" by (cases a) (simp_all add: is_expire_def)
  show ?thesis unfolding a fire_expire using e unfolding a by (auto simp: later_def)
qed

lemma clock_fire: "clock (fire pf a st) = clock st"
proof (cases "is_expire a")
  case False
  then show ?thesis using fire_quiet [of a st pf] by (simp add: quiet_def)
next
  case True
  then show ?thesis by (cases a) (simp_all add: is_expire_def)
qed

lemma whispers_fire: "set (whispers (fire pf a st)) \<subseteq> set (whispers st)"
proof (cases "is_expire a")
  case False
  then show ?thesis using fire_quiet [of a st pf] by (auto simp: quiet_def)
next
  case True
  then show ?thesis by (cases a) (auto simp: is_expire_def)
qed

lemma later_fire_all:
  assumes "\<forall>w \<in> set (whispers st). ExpireWhisper (id_w w) \<in> set acts \<longrightarrow> timestamp_w w + 10000 \<le> clock st"
  shows "later st (fire_all pf acts st)"
  using assms
proof (induction acts arbitrary: st)
  case Nil
  show ?case by (simp add: later_refl)
next
  case (Cons a acts)
  have 1: "later st (fire pf a st)" using Cons.prems by (intro later_fire) auto
  have "\<forall>w \<in> set (whispers (fire pf a st)).
      ExpireWhisper (id_w w) \<in> set acts \<longrightarrow> timestamp_w w + 10000 \<le> clock (fire pf a st)"
    using Cons.prems whispers_fire [of pf a st] unfolding clock_fire by auto
  then have 2: "later (fire pf a st) (fire_all pf acts (fire pf a st))" by (rule Cons.IH)
  show ?case using later_trans [OF 1 2] by simp
qed

lemma whispers_pending_drop:
  "\<not> is_expire a \<Longrightarrow> whispers_pending (a # acts) st = whispers_pending acts st"
  unfolding whispers_pending_def by (cases a) (auto simp: is_expire_def)

lemma whispers_pending_expire:
  assumes "whispers_pending (ExpireWhisper k # acts) st"
  shows "whispers_pending acts (fire pf (ExpireWhisper k) st)"
proof -
  let ?st = "fire pf (ExpireWhisper k) st"
  have w: "whispers ?st = filter (\<lambda>w. id_w w \<noteq> k) (whispers st)"
    and f: "timers ?st = timers st" "whisperIdCounter ?st = whisperIdCounter st" by simp_all
  have 1: "\<forall>w \<in> set (whispers ?st).
         id_w w < whisperIdCounter ?st \<and>
         ((timestamp_w w + 10000, ExpireWhisper (id_w w)) \<in> set (timers ?st) \<or>
          ExpireWhisper (id_w w) \<in> set acts)"
    using assms unfolding whispers_pending_def w f by auto
  have 2: "\<forall>(t, a) \<in> set (timers ?st).
         case a of
           ExpireWhisper k \<Rightarrow>
             k < whisperIdCounter ?st \<and>
             (\<forall>w \<in> set (whispers ?st). id_w w = k \<longrightarrow> t = timestamp_w w + 10000)
         | _ \<Rightarrow> True"
  proof (intro ballI, clarify)
    fix tm a assume "(tm, a) \<in> set (timers ?st)"
    then have "(tm, a) \<in> set (timers st)" unfolding f .
    with assms have "case a of
           ExpireWhisper k \<Rightarrow>
             k < whisperIdCounter st \<and>
             (\<forall>w \<in> set (whispers st). id_w w = k \<longrightarrow> tm = timestamp_w w + 10000)
         | _ \<Rightarrow> True" unfolding whispers_pending_def by blast
    then show "case a of
           ExpireWhisper k \<Rightarrow>
             k < whisperIdCounter ?st \<and>
             (\<forall>w \<in> set (whispers ?st). id_w w = k \<longrightarrow> tm = timestamp_w w + 10000)
         | _ \<Rightarrow> True"
      unfolding w f by (auto split: timer_action.splits)
  qed
  have 3: "sorted_wrt (<) (map id_w (whispers ?st))"
    using assms unfolding whispers_pending_def w
    by (simp add: sorted_wrt_map sorted_wrt_filter)
  show ?thesis unfolding whispers_pending_def using 1 2 3 by blast
qed

lemma fire_all_inv:
  assumes "timers_ahead st" "whispers_pending acts st"
    "status (debugInfo st) = Disconnected \<longrightarrow> \<not> isNegotiating st"
  shows "session_inv (fire_all pf acts st)"
  using assms
proof (induction acts arbitrary: st)
  case Nil
  then show ?case by (simp add: session_inv_def whispers_ok_pending)
next
  case (Cons a acts)
  have "timers_ahead (fire pf a st) \<and> whispers_pending acts (fire pf a st) \<and>
    (status (debugInfo (fire pf a st)) = Disconnected \<longrightarrow> \<not> isNegotiating (fire pf a st))"
  proof (cases "is_expire a")
    case False
    have q: "quiet st (fire pf a st)" by (rule fire_quiet [OF False])
    have "whispers_pending acts st" using Cons.prems(2) whispers_pending_drop [OF False] by blast
    then have "whispers_pending acts (fire pf a st)" by (rule whispers_pending_quiet [OF _ q])
    moreover have "timers_ahead (fire pf a st)" by (rule timers_ahead_quiet [OF Cons.prems(1) q])
    moreover have "status (debugInfo (fire pf a st)) = Disconnected \<longrightarrow> \<not> isNegotiating (fire pf a st)"
      using q Cons.prems(3) unfolding quiet_def by blast
    ultimately show ?thesis by blast
  next
    case True
    then obtain k where a: "a = ExpireWhisper k" by (cases a) (simp_all add: is_expire_def)
    have "whispers_pending acts (fire pf a st)"
      using Cons.prems(2) unfolding a by (rule whispers_pending_expire)
    then show ?thesis using Cons.prems(1,3) unfolding a by (simp add: timers_ahead_def)
  qed
  then have "session_inv (fire_all pf acts (fire pf a st))" using Cons.IH by blast
  then show ?case by simp
qed

lemma session_inv_tick:
  assumes i: "session_inv st"
  shows "session_inv (tick pf st)"
proof -
  define due where "due = filter (\<lambda>(t, a). t \<le> clock st + 1) (timers st)"
  define rest where "rest = filter (\<lambda>(t, a). \<not> t \<le> clock st + 1) (timers st)"
  define s0 where "s0 = st\<lparr>clock := clock st + 1, timers := rest\<rparr>"
  have t: "tick pf st = fire_all pf (map snd due) s0"
    by (simp add: tick_def Let_def due_def rest_def s0_def)
  have sp: "set (timers st) = set due \<union> set rest" unfolding due_def rest_def by auto
  have 1: "timers_ahead s0" unfolding timers_ahead_def s0_def rest_def by auto
  have w: "whispers_ok st" using i unfolding session_inv_def by blast
  have f: "whisperIdCounter s0 = whisperIdCounter st" "whispers s0 = whispers st"
    by (simp_all add: s0_def)
  have a: "\<forall>w \<in> set (whispers s0).
         id_w w < whisperIdCounter s0 \<and>
         ((timestamp_w w + 10000, ExpireWhisper (id_w w)) \<in> set (timers s0) \<or>
          ExpireWhisper (id_w w) \<in> set (map snd due))"
  proof
    fix x assume "x \<in> set (whispers s0)"
    then have x: "x \<in> set (whispers st)" by (simp add: s0_def)
    with w have l: "id_w x < whisperIdCounter st"
      and m: "(timestamp_w x + 10000, ExpireWhisper (id_w x)) \<in> set (timers st)"
      unfolding whispers_ok_def by blast+
    from m sp have "(timestamp_w x + 10000, ExpireWhisper (id_w x)) \<in> set rest \<or>
       (timestamp_w x + 10000, ExpireWhisper (id_w x)) \<in> set due" by blast
    then have "(timestamp_w x + 10000, ExpireWhisper (id_w x)) \<in> set (timers s0) \<or>
          ExpireWhisper (id_w x) \<in> set (map snd due)"
      unfolding s0_def by force
    with l show "id_w x < whisperIdCounter s0 \<and>
         ((timestamp_w x + 10000, ExpireWhisper (id_w x)) \<in> set (timers s0) \<or>
          ExpireWhisper (id_w x) \<in> set (map snd due))" by (simp add: s0_def)
  qed
  have b: "\<forall>(t, a) \<in> set (timers s0).
         case a of
           ExpireWhisper k \<Rightarrow>
             k < whisperIdCounter s0 \<and>
             (\<forall>w \<in> set (whispers s0). id_w w = k \<longrightarrow> t = timestamp_w w + 10000)
         | _ \<Rightarrow> True"
  proof (intro ballI, clarify)
    fix tm a assume "(tm, a) \<in> set (timers s0)"
    then have "(tm, a) \<in> set (timers st)" using sp by (simp add: s0_def)
    with w have "case a of
           ExpireWhisper k \<Rightarrow>
             k < whisperIdCounter st \<and>
             (\<forall>w \<in> set (whispers st). id_w w = k \<longrightarrow> tm = timestamp_w w + 10000)
         | _ \<Rightarrow> True" unfolding whispers_ok_def by blast
    then show "case a of
           ExpireWhisper k \<Rightarrow>
             k < whisperIdCounter s0 \<and>
             (\<forall>w \<in> set (whispers s0). id_w w = k \<longrightarrow> tm = timestamp_w w + 10000)
         | _ \<Rightarrow> True" unfolding f .
  qed
  have c: "sorted_wrt (<) (map id_w (whispers s0))"
    using w unfolding whispers_ok_def by (simp add: s0_def)
  have 2: "whispers_pending (map snd due) s0"
    unfolding whispers_pending_def using a b c by blast
  have 3: "status (debugInfo s0) = Disconnected \<longrightarrow> \<not> isNegotiating s0"
    using i unfolding session_inv_def by (simp add: s0_def)
  show ?thesis unfolding t by (rule fire_all_inv [OF 1 2 3])
qed

lemma later_tick:
  assumes i: "session_inv st"
  shows "later st (tick pf st)"
proof -
  define due where "due = filter (\<lambda>(t, a). t \<le> clock st + 1) (timers st)"
  define rest where "rest = filter (\<lambda>(t, a). \<not> t \<le> clock st + 1) (timers st)"
  define s0 where "s0 = st\<lparr>clock := clock st + 1, timers := rest\<rparr>"
  have t: "tick pf st = fire_all pf (map snd due) s0"
    by (simp add: tick_def Let_def due_def rest_def s0_def)
  have w: "whispers_ok st" using i unfolding session_inv_def by blast
  have 1: "later st s0" by (simp add: later_def s0_def)
  have "\<forall>x \<in> set (whispers s0).
     ExpireWhisper (id_w x) \<in> set (map snd due) \<longrightarrow> timestamp_w x + 10000 \<le> clock s0"
  proof (intro ballI impI)
    fix x assume x: "x \<in> set (whispers s0)" and d: "ExpireWhisper (id_w x) \<in> set (map snd due)"
    from d obtain tm where tm: "(tm, ExpireWhisper (id_w x)) \<in> set due" by auto
    then have m: "(tm, ExpireWhisper (id_w x)) \<in> set (timers st)" and le: "tm \<le> clock st + 1"
      unfolding due_def by auto
    from x have "x \<in> set (whispers st)" by (simp add: s0_def)
    with w m have "tm = timestamp_w x + 10000" unfolding whispers_ok_def by fastforce
    with le show "timestamp_w x + 10000 \<le> clock s0" by (simp add: s0_def)
  qed
  then have 2: "later s0 (fire_all pf (map snd due) s0)" by (rule later_fire_all)
  show ?thesis unfolding t by (rule later_trans [OF 1 2])
qed

lemma session_inv_elapse: "session_inv st \<Longrightarrow> session_inv (elapse pf n st)"
  by (induction n arbitrary: st) (simp_all add: session_inv_tick)

lemma later_elapse: "session_inv st \<Longrightarrow> later st (elapse pf n st)"
proof (induction n arbitrary: st)
  case 0
  show ?case by (simp add: later_refl)
next
  case (Suc n)
  have "later (tick pf st) (elapse pf n (tick pf st))"
    by (rule Suc.IH [OF session_inv_tick [OF Suc.prems]])
  then show ?case using later_trans [OF later_tick [OF Suc.prems]] by simp
qed

subsection \<open>Events and runs\<close>

lemma step_shape:
  "quiet st (step pf e st) \<or> (\<exists>d. step pf e st = onmessage pf d st) \<or>
   (\<exists>n. step pf e st = elapse pf n st)"
proof (cases e)
  case (SocketOpen i)
  then show ?thesis by (simp add: quiet_refl quiet_onopen)
next
  case (SocketClose i code)
  then show ?thesis by (simp add: quiet_refl quiet_onclose)
next
  case (GetUserMediaResolved su flt)
  then show ?thesis by (simp add: quiet_refl quiet_capture_granted)
qed (auto simp: quiet_refl quiet_setIsNegotiating quiet_onerror quiet_capture_rejected
       quiet_onaudioprocess)

lemma session_inv_step: "session_inv st \<Longrightarrow> session_inv (step pf e st)"
  using step_shape [of st pf e] session_inv_quiet session_inv_onmessage session_inv_elapse
  by metis

lemma later_step: "session_inv st \<Longrightarrow> later st (step pf e st)"
  using step_shape [of st pf e] later_quiet later_onmessage later_elapse
  by metis

lemma session_inv_run: "session_inv st \<Longrightarrow> session_inv (run pf es st)"
  by (induction es arbitrary: st) (simp_all add: session_inv_step)

lemma later_run: "session_inv st \<Longrightarrow> later st (run pf es st)"
proof (induction es arbitrary: st)
  case Nil
  show ?case by (simp add: later_refl)
next
  case (Cons e es)
  have "later (step pf e st) (run pf es (step pf e st))"
    by (rule Cons.IH [OF session_inv_step [OF Cons.prems]])
  then show ?case using later_trans [OF later_step [OF Cons.prems]] by simp
qed

lemma session_inv_mount: "session_inv mount"
  by (simp add: session_inv_def timers_ahead_def whispers_ok_def mount_def disconnect_post
      disconnect_frame initial_state_def)


subsection \<open>Teardown paths\<close>


lemmas fixture_defs = test_platform_def test_parse_def msg_whisper_def msg_audio_def
  msg_legacy_audio_def msg_legacy_text_def msg_vol_cut_audio_def msg_odd_audio_def
  msg_vol_whisper_def msg_cut_audio_def dq_def

lemmas handler_defs = stopAudioCapture_def socket_close_def disconnectWebSocket_def
  connectWebSocket_def setIsNegotiating_def onopen_def onerror_def onclose_def playPcmChunk_def
  create_whisper_def onmessage_try_def onmessage_def capture_failed_def startAudioCapture_def
  capture_granted_def onaudioprocess_def mount_def initial_state_def readyState_def

lemma disconnect_released:
  "wsRef st = Some j \<Longrightarrow> Socket_close j \<in> set (released (disconnectWebSocket st))"
  "wsRef st = Some j \<Longrightarrow> readyState (disconnectWebSocket st) j \<noteq> Some OPEN"
  "wsRef st = Some j \<Longrightarrow> readyState (disconnectWebSocket st) j \<noteq> Some CONNECTING"
  "processorRef st = Some p \<Longrightarrow> Processor_disconnect p \<in> set (released (disconnectWebSocket st))"
  "mediaStreamRef st = Some m \<Longrightarrow> Track_stop m \<in> set (released (disconnectWebSocket st))"
  "audioContextRef st = Some c \<Longrightarrow> Context_close c \<in> set (released (disconnectWebSocket st))"
  "set (released st) \<subseteq> set (released (disconnectWebSocket st))"
  "sockets (disconnectWebSocket st) = sockets st \<or> wsRef st \<noteq> None"
  by (auto simp: disconnectWebSocket_def stopAudioCapture_eq socket_close_def basic_defs
      readyState_def Let_def nth_list_update split: option.splits)

lemma disconnect_sockets_idle:
  "wsRef st = None \<Longrightarrow> sockets (disconnectWebSocket st) = sockets st"
  "wsRef st = None \<Longrightarrow> set (released (disconnectWebSocket st)) =
     set (released (stopAudioCapture st))"
  by (simp_all add: disconnectWebSocket_def stopAudioCapture_eq)

lemma torn_down_stop:
  "isNegotiating st \<Longrightarrow> torn_down (setIsNegotiating False st)"
  by (simp add: torn_down_def setIsNegotiating_def Let_def disconnect_post disconnect_frame)

lemma onclose_fields:
  "status (debugInfo (onclose code st)) = Disconnected_code code"
  "\<not> isConnected (onclose code st)"
  "processorRef (onclose code st) = None"
  "mediaStreamRef (onclose code st) = None"
  "audioContextRef (onclose code st) = None"
  "audioLevel (onclose code st) = audioLevel st"
  "whispers (onclose code st) = whispers st"
  "isNegotiating (onclose code st) = isNegotiating st"
  "sockets (onclose code st) = sockets st"
  "wsRef (onclose code st) = wsRef st"
  "processorRef st = Some p \<Longrightarrow> Processor_disconnect p \<in> set (released (onclose code st))"
  "mediaStreamRef st = Some m \<Longrightarrow> Track_stop m \<in> set (released (onclose code st))"
  "audioContextRef st = Some c \<Longrightarrow> Context_close c \<in> set (released (onclose code st))"
  by (simp_all add: onclose_def stopAudioCapture_eq basic_defs Let_def)

subsection \<open>Reachable states\<close>


lemma session_inv_reachable: "session_inv (run pf es mount)"
  by (rule session_inv_run [OF session_inv_mount])

lemma setIsNegotiating_fields:
  "whisperIdCounter (setIsNegotiating v st) = whisperIdCounter st"
  "clock (setIsNegotiating v st) = clock st"
  "timers (setIsNegotiating v st) = timers st"
  by (simp_all add: setIsNegotiating_def Let_def disconnect_frame connect_fields)

lemma disconnect_twice:
  "disconnectWebSocket (disconnectWebSocket st) =
     (disconnectWebSocket st)
       \<lparr>console := console (disconnectWebSocket st) @ [Log ''[AUDIO] Stopping audio capture'']\<rparr>"
proof -
  define s where "s = disconnectWebSocket st"
  have "disconnectWebSocket s = s\<lparr>console := console s @ [Log ''[AUDIO] Stopping audio capture'']\<rparr>"
    using disconnect_post [of st, folded s_def]
    by (simp add: disconnectWebSocket_def stopAudioCapture_idle)
  then show ?thesis by (simp add: s_def)
qed

subsection \<open>The router in closed form\<close>


lemma playPcmChunk_eq:
  "\<exists>c r. playPcmChunk pf a st = st\<lparr>console := console st @ c, playbacks := playbacks st @ [r]\<rparr> \<and>
     (\<forall>e. decode_pcm (atob_arg pf a) = Inl e \<longrightarrow> r = PlayFailed e)"
proof (cases "decode_pcm (atob_arg pf a)")
  case (Inl e)
  have "playPcmChunk pf a st =
    st\<lparr>console := console st @ [Err ''[AUDIO] Error playing audio:''],
       playbacks := playbacks st @ [PlayFailed e]\<rparr>"
    using Inl by (simp add: playPcmChunk_def basic_defs)
  then show ?thesis using Inl
    by (intro exI [of _ "[Err ''[AUDIO] Error playing audio:'']"] exI [of _ "PlayFailed e"]) simp
next
  case (Inr xs)
  show ?thesis
  proof (cases "xs = []")
    case True
    have "playPcmChunk pf a st =
      st\<lparr>console := console st @ [Err ''[AUDIO] Error playing audio:''],
         playbacks := playbacks st @ [PlayFailed NotSupportedError]\<rparr>"
      using Inr True by (simp add: playPcmChunk_def basic_defs)
    then show ?thesis using Inr
      by (intro exI [of _ "[Err ''[AUDIO] Error playing audio:'']"]
          exI [of _ "PlayFailed NotSupportedError"]) simp
  next
    case False
    have "playPcmChunk pf a st = st\<lparr>console := console st @ [], playbacks := playbacks st @ [Played xs]\<rparr>"
      using Inr False by (simp add: playPcmChunk_def)
    then show ?thesis using Inr
      by (intro exI [of _ "[]"] exI [of _ "Played xs"]) simp
  qed
qed

text \<open>
  The state the router leaves is the state it met with a new volume, a new whisper with
  its timer, and new console lines and playback entries, each only if the message asks
  for it.
\<close>

lemma onmessage_try_eq:
  assumes "data \<noteq> JNull"
  shows "\<exists>c ps. onmessage_try pf data st =
     Inr ((case property data ''text'' of
             None \<Rightarrow> (\<lambda>s. s)
           | Some t \<Rightarrow>
               if property data ''type'' = Some (JStr ''whisper'') \<and> truthy (Some t)
               then create_whisper t else (\<lambda>s. s))
          (st\<lparr>audioLevel := (case property data ''vol'' of None \<Rightarrow> audioLevel st | Some v \<Rightarrow> v)\<rparr>)
          \<lparr>console := c, playbacks := playbacks st @ ps\<rparr>) \<and>
     length ps =
       (if property data ''type'' = Some (JStr ''audio'') \<and> truthy (property data ''audio'')
        then 1 else 0) +
       (if truthy (property data ''audio'') \<and> \<not> truthy (property data ''type'') then 1 else 0) \<and>
     (\<forall>a e. property data ''audio'' = Some a \<and> decode_pcm (atob_arg pf a) = Inl e \<longrightarrow>
        set ps \<subseteq> {PlayFailed e})"
proof -
  define F where "F ps = (\<forall>a e. property data ''audio'' = Some a \<and> decode_pcm (atob_arg pf a) = Inl e \<longrightarrow>
        set ps \<subseteq> {PlayFailed e})" for ps :: "playback list"
  define s1 where "s1 = (case property data ''vol'' of
                      None \<Rightarrow> st
                    | Some vol \<Rightarrow> st\<lparr>audioLevel := vol\<rparr>)"
  define s2 where "s2 = (case property data ''text'' of
                      None \<Rightarrow> s1
                    | Some t \<Rightarrow>
                        if property data ''type'' = Some (JStr ''whisper'') \<and> truthy (Some t)
                        then create_whisper t s1 else s1)"
  define s3 where "s3 = (case property data ''audio'' of
                      None \<Rightarrow> s2
                    | Some a \<Rightarrow>
                        if property data ''type'' = Some (JStr ''audio'') \<and> truthy (Some a)
                        then playPcmChunk pf a (console_log ''[WS] Playing audio whisper'' s2)
                        else s2)"
  define s4 where "s4 = (case property data ''audio'' of
                      None \<Rightarrow> s3
                    | Some a \<Rightarrow>
                        if truthy (Some a) \<and> \<not> truthy (property data ''type'')
                        then playPcmChunk pf a s3 else s3)"
  define s5 where "s5 = (if truthy (property data ''text'') \<and> \<not> truthy (property data ''type'')
                    then console_log ''[WS] Gemini:'' s4 else s4)"
  have r: "onmessage_try pf data st = Inr s5"
    unfolding onmessage_try_def Let_def s5_def s4_def s3_def s2_def s1_def
    using assms by (simp only: if_False)
  define A where "A = (property data ''type'' = Some (JStr ''audio'') \<and> truthy (property data ''audio''))"
  define L where "L = (truthy (property data ''audio'') \<and> \<not> truthy (property data ''type''))"
  have e1: "s1 = st\<lparr>audioLevel := (case property data ''vol'' of None \<Rightarrow> audioLevel st | Some v \<Rightarrow> v)\<rparr>"
    unfolding s1_def by (simp split: option.splits)
  have e2: "s2 = (case property data ''text'' of
             None \<Rightarrow> (\<lambda>s. s)
           | Some t \<Rightarrow>
               if property data ''type'' = Some (JStr ''whisper'') \<and> truthy (Some t)
               then create_whisper t else (\<lambda>s. s)) s1"
    unfolding s2_def by (simp split: option.splits)
  have p2: "playbacks s2 = playbacks st"
    unfolding e2 e1 by (simp add: create_whisper_fields split: option.splits)
  have e3: "\<exists>c ps. s3 = s2\<lparr>console := c, playbacks := playbacks s2 @ ps\<rparr> \<and>
      length ps = (if A then 1 else 0) \<and> F ps"
  proof (cases A)
    case True
    then obtain a where a: "property data ''audio'' = Some a" unfolding A_def
      by (cases "property data ''audio''") auto
    obtain c r where cr: "playPcmChunk pf a (console_log ''[WS] Playing audio whisper'' s2) =
       (console_log ''[WS] Playing audio whisper'' s2)
         \<lparr>console := console (console_log ''[WS] Playing audio whisper'' s2) @ c,
          playbacks := playbacks (console_log ''[WS] Playing audio whisper'' s2) @ [r]\<rparr>"
      and f: "\<forall>e. decode_pcm (atob_arg pf a) = Inl e \<longrightarrow> r = PlayFailed e"
      using playPcmChunk_eq [of pf a "console_log ''[WS] Playing audio whisper'' s2"]
      by (elim exE conjE) (rule that)
    have 1: "F [r]" unfolding F_def a using f by auto
    have 2: "s3 = s2\<lparr>console := console s2 @ [Log ''[WS] Playing audio whisper''] @ c,
         playbacks := playbacks s2 @ [r]\<rparr>"
      unfolding s3_def a using True cr unfolding A_def a by (simp add: basic_defs)
    have 3: "length [r] = (if A then 1 else 0)" using True by simp
    show ?thesis
      by (rule exI [of _ "console s2 @ [Log ''[WS] Playing audio whisper''] @ c"],
          rule exI [of _ "[r]"]) (intro conjI 1 2 3)
  next
    case False
    then have "s3 = s2" unfolding s3_def A_def by (auto split: option.splits)
    then have 2: "s3 = s2\<lparr>console := console s2, playbacks := playbacks s2 @ []\<rparr>" by simp
    have 1: "F []" unfolding F_def by simp
    have 3: "length ([] :: playback list) = (if A then 1 else 0)" using False by simp
    show ?thesis
      by (rule exI [of _ "console s2"], rule exI [of _ "[]"]) (intro conjI 1 2 3)
  qed
  have e4: "\<exists>c ps. s4 = s3\<lparr>console := c, playbacks := playbacks s3 @ ps\<rparr> \<and>
      length ps = (if L then 1 else 0) \<and> F ps"
  proof (cases L)
    case True
    then obtain a where a: "property data ''audio'' = Some a" unfolding L_def
      by (cases "property data ''audio''") auto
    obtain c r where cr: "playPcmChunk pf a s3 =
       s3\<lparr>console := console s3 @ c, playbacks := playbacks s3 @ [r]\<rparr>"
      and f: "\<forall>e. decode_pcm (atob_arg pf a) = Inl e \<longrightarrow> r = PlayFailed e"
      using playPcmChunk_eq [of pf a s3] by (elim exE conjE) (rule that)
    have 1: "F [r]" unfolding F_def a using f by auto
    have 2: "s4 = s3\<lparr>console := console s3 @ c, playbacks := playbacks s3 @ [r]\<rparr>"
      unfolding s4_def a using True cr unfolding L_def a by simp
    have 3: "length [r] = (if L then 1 else 0)" using True by simp
    show ?thesis
      by (rule exI [of _ "console s3 @ c"], rule exI [of _ "[r]"]) (intro conjI 1 2 3)
  next
    case False
    then have "s4 = s3" unfolding s4_def L_def by (auto split: option.splits)
    then have 2: "s4 = s3\<lparr>console := console s3, playbacks := playbacks s3 @ []\<rparr>" by simp
    have 1: "F []" unfolding F_def by simp
    have 3: "length ([] :: playback list) = (if L then 1 else 0)" using False by simp
    show ?thesis
      by (rule exI [of _ "console s3"], rule exI [of _ "[]"]) (intro conjI 1 2 3)
  qed
  have e5: "\<exists>c. s5 = s4\<lparr>console := c\<rparr>"
  proof (cases "truthy (property data ''text'') \<and> \<not> truthy (property data ''type'')")
    case True
    then have "s5 = s4\<lparr>console := console s4 @ [Log ''[WS] Gemini:'']\<rparr>"
      unfolding s5_def by (simp add: basic_defs)
    then show ?thesis by (rule exI)
  next
    case False
    then have "s5 = s4" unfolding s5_def by auto
    then have "s5 = s4\<lparr>console := console s4\<rparr>" by simp
    then show ?thesis by (rule exI)
  qed
  from e3 obtain c3 ps3 where 3: "s3 = s2\<lparr>console := c3, playbacks := playbacks s2 @ ps3\<rparr>"
    "length ps3 = (if A then 1 else 0)" "F ps3" by blast
  from e4 obtain c4 ps4 where 4: "s4 = s3\<lparr>console := c4, playbacks := playbacks s3 @ ps4\<rparr>"
    "length ps4 = (if L then 1 else 0)" "F ps4" by blast
  from e5 obtain c5 where 5: "s5 = s4\<lparr>console := c5\<rparr>" by blast
  have a: "s5 = s2\<lparr>console := c5, playbacks := playbacks st @ (ps3 @ ps4)\<rparr>"
    unfolding 5 4 3 p2 by simp
  have b: "length (ps3 @ ps4) = (if A then 1 else 0) + (if L then 1 else 0)"
    using 3(2) 4(2) by simp
  have c: "F (ps3 @ ps4)" using 3(3) 4(3) unfolding F_def by auto
  have c': "\<forall>a e. property data ''audio'' = Some a \<and> decode_pcm (atob_arg pf a) = Inl e \<longrightarrow>
        set (ps3 @ ps4) \<subseteq> {PlayFailed e}" using c unfolding F_def .
  have b': "length (ps3 @ ps4) =
       (if property data ''type'' = Some (JStr ''audio'') \<and> truthy (property data ''audio'')
        then 1 else 0) +
       (if truthy (property data ''audio'') \<and> \<not> truthy (property data ''type'') then 1 else 0)"
    using b unfolding A_def L_def .
  have a': "onmessage_try pf data st = Inr ((case property data ''text'' of
             None \<Rightarrow> (\<lambda>s. s)
           | Some t \<Rightarrow>
               if property data ''type'' = Some (JStr ''whisper'') \<and> truthy (Some t)
               then create_whisper t else (\<lambda>s. s))
          (st\<lparr>audioLevel := (case property data ''vol'' of None \<Rightarrow> audioLevel st | Some v \<Rightarrow> v)\<rparr>)
          \<lparr>console := c5, playbacks := playbacks st @ (ps3 @ ps4)\<rparr>)"
    unfolding r a e2 e1 ..
  show ?thesis
    by (rule exI [of _ c5], rule exI [of _ "ps3 @ ps4"]) (intro conjI a' b' c')
qed


lemma onmessage_parsed:
  assumes "JSON_parse pf event_data = Some data" "data \<noteq> JNull"
  shows "onmessage_try pf data
           (st\<lparr>debugInfo := (debugInfo st)
              \<lparr>lastMessage := (if length event_data > 50 then take 50 event_data @ ''...''
                                else event_data)\<rparr>\<rparr>) = Inr (onmessage pf event_data st)"
proof -
  define s0 where "s0 = st\<lparr>debugInfo := (debugInfo st)
              \<lparr>lastMessage := (if length event_data > 50 then take 50 event_data @ ''...''
                                else event_data)\<rparr>\<rparr>"
  obtain s where s: "onmessage_try pf data s0 = Inr s"
    using assms(2) by (simp add: onmessage_try_def Let_def)
  have "onmessage pf event_data st = s"
    using assms(1) s unfolding s0_def by (simp add: onmessage_def Let_def)
  then show ?thesis using s unfolding s0_def by simp
qed


text \<open>What the router does to the whispers, the playback log and the session.\<close>

lemma onmessage_eq:
  assumes p: "JSON_parse pf event_data = Some data" and n: "data \<noteq> JNull"
  shows "\<exists>c ps. onmessage pf event_data st =
     (case property data ''text'' of
             None \<Rightarrow> (\<lambda>s. s)
           | Some t \<Rightarrow>
               if property data ''type'' = Some (JStr ''whisper'') \<and> truthy (Some t)
               then create_whisper t else (\<lambda>s. s))
          (st\<lparr>debugInfo := (debugInfo st)
              \<lparr>lastMessage := (if length event_data > 50 then take 50 event_data @ ''...''
                                else event_data)\<rparr>,
              audioLevel := (case property data ''vol'' of None \<Rightarrow> audioLevel st | Some v \<Rightarrow> v)\<rparr>)
          \<lparr>console := c, playbacks := playbacks st @ ps\<rparr> \<and>
     length ps =
       (if property data ''type'' = Some (JStr ''audio'') \<and> truthy (property data ''audio'')
        then 1 else 0) +
       (if truthy (property data ''audio'') \<and> \<not> truthy (property data ''type'') then 1 else 0) \<and>
     (\<forall>a e. property data ''audio'' = Some a \<and> decode_pcm (atob_arg pf a) = Inl e \<longrightarrow>
        set ps \<subseteq> {PlayFailed e})"
proof -
  define m where "m = (if length event_data > 50 then take 50 event_data @ ''...''
                                else event_data)"
  define s0 where "s0 = st\<lparr>debugInfo := (debugInfo st)\<lparr>lastMessage := m\<rparr>\<rparr>"
  define v where "v = (case property data ''vol'' of None \<Rightarrow> audioLevel st | Some v \<Rightarrow> v)"
  define W where "W = (case property data ''text'' of
             None \<Rightarrow> (\<lambda>s. s)
           | Some t \<Rightarrow>
               if property data ''type'' = Some (JStr ''whisper'') \<and> truthy (Some t)
               then create_whisper t else (\<lambda>s. s))"
  have t: "onmessage_try pf data s0 = Inr (onmessage pf event_data st)"
    unfolding s0_def m_def by (rule onmessage_parsed [OF p n])
  have al: "audioLevel s0 = audioLevel st" "playbacks s0 = playbacks st"
    by (simp_all add: s0_def)
  from onmessage_try_eq [OF n, of pf s0] obtain c ps where
    e: "onmessage_try pf data s0 =
     Inr ((case property data ''text'' of
             None \<Rightarrow> (\<lambda>s. s)
           | Some t \<Rightarrow>
               if property data ''type'' = Some (JStr ''whisper'') \<and> truthy (Some t)
               then create_whisper t else (\<lambda>s. s))
          (s0\<lparr>audioLevel := (case property data ''vol'' of None \<Rightarrow> audioLevel s0 | Some v \<Rightarrow> v)\<rparr>)
          \<lparr>console := c, playbacks := playbacks s0 @ ps\<rparr>)"
    and l: "length ps =
       (if property data ''type'' = Some (JStr ''audio'') \<and> truthy (property data ''audio'')
        then 1 else 0) +
       (if truthy (property data ''audio'') \<and> \<not> truthy (property data ''type'') then 1 else 0)"
    and f: "\<forall>a e. property data ''audio'' = Some a \<and> decode_pcm (atob_arg pf a) = Inl e \<longrightarrow>
        set ps \<subseteq> {PlayFailed e}"
    by (elim exE conjE) (rule that)
  have e': "onmessage_try pf data s0 =
     Inr (W (s0\<lparr>audioLevel := v\<rparr>) \<lparr>console := c, playbacks := playbacks st @ ps\<rparr>)"
    using e unfolding al W_def [symmetric] v_def [symmetric] .
  have "s0\<lparr>audioLevel := v\<rparr> = st\<lparr>debugInfo := (debugInfo st)\<lparr>lastMessage := m\<rparr>, audioLevel := v\<rparr>"
    by (simp add: s0_def)
  with t e' have "onmessage pf event_data st =
     W (st\<lparr>debugInfo := (debugInfo st)\<lparr>lastMessage := m\<rparr>, audioLevel := v\<rparr>)
       \<lparr>console := c, playbacks := playbacks st @ ps\<rparr>"
    by simp
  then have "onmessage pf event_data st =
     (case property data ''text'' of
             None \<Rightarrow> (\<lambda>s. s)
           | Some t \<Rightarrow>
               if property data ''type'' = Some (JStr ''whisper'') \<and> truthy (Some t)
               then create_whisper t else (\<lambda>s. s))
          (st\<lparr>debugInfo := (debugInfo st)
              \<lparr>lastMessage := (if length event_data > 50 then take 50 event_data @ ''...''
                                else event_data)\<rparr>,
              audioLevel := (case property data ''vol'' of None \<Rightarrow> audioLevel st | Some v \<Rightarrow> v)\<rparr>)
          \<lparr>console := c, playbacks := playbacks st @ ps\<rparr>"
    unfolding W_def v_def m_def .
  then show ?thesis using l f by (intro exI [of _ c] exI [of _ ps] conjI)
qed

subsection \<open>Reading properties\<close>


lemma property_JNull: "property data k = Some v \<Longrightarrow> data \<noteq> JNull"
  by (cases data) simp_all

lemma truthy_Some: "truthy p \<Longrightarrow> \<exists>v. p = Some v"
  by (cases p) simp_all

subsection \<open>Frames\<close>






subsection \<open>Capture failure\<close>

lemma failure_handled_capture_failed:
  "failure_handled msg st (capture_failed msg st)"
  by (simp add: failure_handled_def capture_failed_def basic_defs Let_def)

lemma failure_handled_cong:
  assumes "failure_handled msg sa st'"
    "timers sa = timers st" "clock sa = clock st"
    "pendingGetUserMedia sa \<le> pendingGetUserMedia st" "isNegotiating sa = isNegotiating st"
  shows "failure_handled msg st st'"
  using assms unfolding failure_handled_def by simp

lemma capture_granted_fault:
  assumes "stage = At_resume \<longrightarrow> suspended"
  shows "\<exists>sa. capture_granted suspended (Some (stage, msg)) st = capture_failed msg sa \<and>
     timers sa = timers st \<and> clock sa = clock st \<and>
     pendingGetUserMedia sa = pendingGetUserMedia st \<and> isNegotiating sa = isNegotiating st"
proof -
  have k: "\<exists>sa. capture_failed msg x = capture_failed msg sa \<and>
     timers sa = timers st \<and> clock sa = clock st \<and>
     pendingGetUserMedia sa = pendingGetUserMedia st \<and> isNegotiating sa = isNegotiating st"
    if "timers x = timers st" "clock x = clock st"
      "pendingGetUserMedia x = pendingGetUserMedia st" "isNegotiating x = isNegotiating st" for x
    using that by (intro exI [of _ x]) simp
  show ?thesis
  proof (cases stage)
    case At_AudioContext
    show ?thesis unfolding At_AudioContext
      by (simp add: capture_granted_def throws_at_def Let_def) (rule k; simp add: basic_defs)
  next
    case At_resume
    then have s: suspended using assms by simp
    show ?thesis unfolding At_resume
      by (simp add: s capture_granted_def throws_at_def Let_def) (rule k; simp add: basic_defs)
  next
    case At_createMediaStreamSource
    show ?thesis unfolding At_createMediaStreamSource
      by (cases suspended; simp add: capture_granted_def throws_at_def Let_def)
         (rule k; simp add: basic_defs)+
  next
    case At_createScriptProcessor
    show ?thesis unfolding At_createScriptProcessor
      by (cases suspended; simp add: capture_granted_def throws_at_def Let_def)
         (rule k; simp add: basic_defs)+
  next
    case At_connect
    show ?thesis unfolding At_connect
      by (cases suspended; simp add: capture_granted_def throws_at_def Let_def)
         (rule k; simp add: basic_defs)+
  qed
qed

lemma torn_down_fire: "torn_down st \<Longrightarrow> torn_down (fire pf a st)"
  by (cases a)
     (simp_all add: torn_down_def startAudioCapture_def capture_failed_def basic_defs Let_def
        setIsNegotiating_def)

lemma live_fire:
  "isNegotiating st \<Longrightarrow> torn_down (fire pf a st) \<or> isNegotiating (fire pf a st)"
proof (cases a)
  case AutoStop
  assume "isNegotiating st"
  then show ?thesis unfolding AutoStop using torn_down_stop by simp
qed (simp_all add: startAudioCapture_def capture_failed_def basic_defs Let_def)

lemma fire_all_keeps:
  "torn_down st \<or> isNegotiating st \<Longrightarrow>
   torn_down (fire_all pf acts st) \<or> isNegotiating (fire_all pf acts st)"
proof (induction acts arbitrary: st)
  case Nil
  then show ?case by simp
next
  case (Cons a acts)
  have "torn_down (fire pf a st) \<or> isNegotiating (fire pf a st)"
    using Cons.prems torn_down_fire live_fire by blast
  then show ?case using Cons.IH by simp
qed

lemma torn_down_fire_all: "torn_down st \<Longrightarrow> torn_down (fire_all pf acts st)"
  by (induction acts arbitrary: st) (simp_all add: torn_down_fire)

lemma fire_all_stops:
  "AutoStop \<in> set acts \<Longrightarrow> torn_down st \<or> isNegotiating st \<Longrightarrow>
   torn_down (fire_all pf acts st)"
proof (induction acts arbitrary: st)
  case Nil
  then show ?case by simp
next
  case (Cons a acts)
  have k: "torn_down (fire pf a st) \<or> isNegotiating (fire pf a st)"
    using Cons.prems(2) torn_down_fire live_fire by blast
  show ?case
  proof (cases "a = AutoStop")
    case True
    have "torn_down (fire pf a st)"
    proof (cases "isNegotiating st")
      case True
      then show ?thesis unfolding \<open>a = AutoStop\<close> using torn_down_stop by simp
    next
      case False
      then show ?thesis using Cons.prems(2) torn_down_fire by blast
    qed
    then show ?thesis using torn_down_fire_all by simp
  next
    case False
    then have "AutoStop \<in> set acts" using Cons.prems(1) by simp
    then show ?thesis using Cons.IH k by simp
  qed
qed

lemma timers_fire: "set (timers st) \<subseteq> set (timers (fire pf a st))"
proof (cases "is_expire a")
  case False
  show ?thesis using quiet_timers [OF fire_quiet [OF False, of st pf]]
    by (metis Un_iff set_append subsetI)
next
  case True
  then show ?thesis by (cases a) (simp_all add: is_expire_def)
qed

lemma timers_fire_all: "set (timers st) \<subseteq> set (timers (fire_all pf acts st))"
proof (induction acts arbitrary: st)
  case Nil
  show ?case by simp
next
  case (Cons a acts)
  show ?case using timers_fire [of st pf a] Cons.IH [of "fire pf a st"] by auto
qed

lemma clock_fire_all: "clock (fire_all pf acts st) = clock st"
  by (induction acts arbitrary: st) (simp_all add: clock_fire)

lemma clock_tick: "clock (tick pf st) = clock st + 1"
  by (simp add: tick_def Let_def clock_fire_all)

lemma torn_down_tick: "torn_down st \<Longrightarrow> torn_down (tick pf st)"
proof -
  assume t: "torn_down st"
  have "torn_down (st\<lparr>clock := c, timers := r\<rparr>)" for c r
    using t by (simp add: torn_down_def)
  then show ?thesis by (simp add: tick_def Let_def torn_down_fire_all)
qed

lemma torn_down_elapse: "torn_down st \<Longrightarrow> torn_down (elapse pf n st)"
  by (induction n arbitrary: st) (simp_all add: torn_down_tick)

lemma elapse_autostop:
  assumes "(T, AutoStop) \<in> set (timers st)" "clock st < T" "T \<le> clock st + n"
    "torn_down st \<or> isNegotiating st"
  shows "torn_down (elapse pf n st)"
  using assms
proof (induction n arbitrary: st)
  case 0
  then show ?case by simp
next
  case (Suc n)
  define due where "due = filter (\<lambda>(t, a). t \<le> clock st + 1) (timers st)"
  define rest where "rest = filter (\<lambda>(t, a). \<not> t \<le> clock st + 1) (timers st)"
  define s0 where "s0 = st\<lparr>clock := clock st + 1, timers := rest\<rparr>"
  have t: "tick pf st = fire_all pf (map snd due) s0"
    by (simp add: tick_def Let_def due_def rest_def s0_def)
  have p0: "torn_down s0 \<or> isNegotiating s0"
    using Suc.prems(4) by (auto simp: s0_def torn_down_def)
  show ?case
  proof (cases "T \<le> clock st + 1")
    case True
    then have "(T, AutoStop) \<in> set due" using Suc.prems(1) by (simp add: due_def)
    then have "AutoStop \<in> set (map snd due)" by force
    then have "torn_down (tick pf st)" unfolding t using p0 by (rule fire_all_stops)
    then show ?thesis by (simp add: torn_down_elapse)
  next
    case False
    then have "(T, AutoStop) \<in> set (timers s0)"
      using Suc.prems(1) by (simp add: s0_def rest_def)
    then have 1: "(T, AutoStop) \<in> set (timers (tick pf st))"
      unfolding t using timers_fire_all by blast
    have 2: "clock (tick pf st) < T" using False by (simp add: clock_tick)
    have 3: "T \<le> clock (tick pf st) + n" using Suc.prems(3) by (simp add: clock_tick)
    have 4: "torn_down (tick pf st) \<or> isNegotiating (tick pf st)"
      unfolding t using p0 by (rule fire_all_keeps)
    show ?thesis using Suc.IH [OF 1 2 3 4] by simp
  qed
qed

lemma failure_aborts:
  assumes f: "failure_handled msg st st'" and n: "isNegotiating st" and d: "2000 \<le> n"
  shows "torn_down (elapse pf n st')"
proof (rule elapse_autostop)
  show "(clock st + 2000, AutoStop) \<in> set (timers st')"
    using f unfolding failure_handled_def by simp
  show "clock st' < clock st + 2000" using f unfolding failure_handled_def by simp
  show "clock st + 2000 \<le> clock st' + n" using f d unfolding failure_handled_def by simp
  show "torn_down st' \<or> isNegotiating st'" using f n unfolding failure_handled_def by simp
qed

subsection \<open>Age of a whisper\<close>


lemma whisper_young:
  assumes "session_inv st" "w \<in> set (whispers st)"
  shows "clock st < timestamp_w w + 10000"
proof -
  have "(timestamp_w w + 10000, ExpireWhisper (id_w w)) \<in> set (timers st)"
    using assms unfolding session_inv_def whispers_ok_def by blast
  moreover have "\<forall>(t, a) \<in> set (timers st). clock st < t"
    using assms(1) unfolding session_inv_def timers_ahead_def by blast
  ultimately show ?thesis by blast
qed

lemma elapse_3: "elapse pf 3 st = tick pf (tick pf (tick pf st))"
  by (simp add: numeral_3_eq_3)
section \<open>The claims\<close>

text \<open>
  C1, as amended. A stop intent in a live session, whatever its phase, leaves status
  \<^verbatim>\<open>'Disconnected'\<close>, volume 0, no whisper, the socket closing or closed and the
  capture pipeline released: each of the processor, the stream and the audio context that
  was held has been let go. A close event of a socket, in any state, leaves status
  \<^verbatim>\<open>`Disconnected (${code})`\<close>, \<^verbatim>\<open>isConnected\<close> false, the socket closed and the
  capture pipeline released in the same way.
\<close>

theorem teardown_paths:
  "(isNegotiating st \<longrightarrow>
      torn_down (step pf StopIntent st) \<and>
      (\<forall>j. wsRef st = Some j \<longrightarrow>
         Socket_close j \<in> set (released (step pf StopIntent st)) \<and>
         readyState (step pf StopIntent st) j \<noteq> Some OPEN \<and>
         readyState (step pf StopIntent st) j \<noteq> Some CONNECTING) \<and>
      (\<forall>p. processorRef st = Some p \<longrightarrow>
         Processor_disconnect p \<in> set (released (step pf StopIntent st))) \<and>
      (\<forall>m. mediaStreamRef st = Some m \<longrightarrow>
         Track_stop m \<in> set (released (step pf StopIntent st))) \<and>
      (\<forall>c. audioContextRef st = Some c \<longrightarrow>
         Context_close c \<in> set (released (step pf StopIntent st)))) \<and>
   (readyState st i \<in> {Some CONNECTING, Some OPEN, Some CLOSING} \<longrightarrow>
      status (debugInfo (step pf (SocketClose i code) st)) = Disconnected_code code \<and>
      \<not> isConnected (step pf (SocketClose i code) st) \<and>
      readyState (step pf (SocketClose i code) st) i = Some CLOSED \<and>
      processorRef (step pf (SocketClose i code) st) = None \<and>
      mediaStreamRef (step pf (SocketClose i code) st) = None \<and>
      audioContextRef (step pf (SocketClose i code) st) = None \<and>
      (\<forall>p. processorRef st = Some p \<longrightarrow>
         Processor_disconnect p \<in> set (released (step pf (SocketClose i code) st))) \<and>
      (\<forall>m. mediaStreamRef st = Some m \<longrightarrow>
         Track_stop m \<in> set (released (step pf (SocketClose i code) st))) \<and>
      (\<forall>c. audioContextRef st = Some c \<longrightarrow>
         Context_close c \<in> set (released (step pf (SocketClose i code) st))))"
proof (intro conjI impI)
  assume n: "isNegotiating st"
  define s1 where "s1 = disconnectWebSocket (st\<lparr>isNegotiating := False\<rparr>)"
  have e: "step pf StopIntent st = disconnectWebSocket s1"
    using n by (simp add: setIsNegotiating_def Let_def s1_def)
  have w1: "wsRef s1 = None" unfolding s1_def by (rule disconnect_post)
  have sub: "set (released s1) \<subseteq> set (released (disconnectWebSocket s1))"
    by (rule disconnect_released)
  show "torn_down (step pf StopIntent st)" using torn_down_stop [OF n] by simp
  show "\<forall>j. wsRef st = Some j \<longrightarrow>
         Socket_close j \<in> set (released (step pf StopIntent st)) \<and>
         readyState (step pf StopIntent st) j \<noteq> Some OPEN \<and>
         readyState (step pf StopIntent st) j \<noteq> Some CONNECTING"
  proof (intro allI impI)
    fix j assume j: "wsRef st = Some j"
    then have j': "wsRef (st\<lparr>isNegotiating := False\<rparr>) = Some j" by simp
    have "Socket_close j \<in> set (released s1)" "readyState s1 j \<noteq> Some OPEN"
      "readyState s1 j \<noteq> Some CONNECTING"
      unfolding s1_def by (rule disconnect_released(1-3) [OF j'])+
    moreover have "readyState (disconnectWebSocket s1) j = readyState s1 j"
      using disconnect_sockets_idle(1) [OF w1] by (simp add: readyState_def)
    ultimately show "Socket_close j \<in> set (released (step pf StopIntent st)) \<and>
         readyState (step pf StopIntent st) j \<noteq> Some OPEN \<and>
         readyState (step pf StopIntent st) j \<noteq> Some CONNECTING"
      unfolding e using sub by auto
  qed
  show "\<forall>p. processorRef st = Some p \<longrightarrow>
         Processor_disconnect p \<in> set (released (step pf StopIntent st))"
    unfolding e using sub disconnect_released(4) [of "st\<lparr>isNegotiating := False\<rparr>"]
    by (auto simp: s1_def)
  show "\<forall>m. mediaStreamRef st = Some m \<longrightarrow>
         Track_stop m \<in> set (released (step pf StopIntent st))"
    unfolding e using sub disconnect_released(5) [of "st\<lparr>isNegotiating := False\<rparr>"]
    by (auto simp: s1_def)
  show "\<forall>c. audioContextRef st = Some c \<longrightarrow>
         Context_close c \<in> set (released (step pf StopIntent st))"
    unfolding e using sub disconnect_released(6) [of "st\<lparr>isNegotiating := False\<rparr>"]
    by (auto simp: s1_def)
next
  assume r: "readyState st i \<in> {Some CONNECTING, Some OPEN, Some CLOSING}"
  define s1 where "s1 = st\<lparr>sockets := (sockets st)[i := CLOSED]\<rparr>"
  have e: "step pf (SocketClose i code) st = onclose code s1"
    using r by (simp add: s1_def)
  have l: "i < length (sockets st)" using r by (auto simp: readyState_def split: if_splits)
  show "status (debugInfo (step pf (SocketClose i code) st)) = Disconnected_code code"
    "\<not> isConnected (step pf (SocketClose i code) st)"
    "processorRef (step pf (SocketClose i code) st) = None"
    "mediaStreamRef (step pf (SocketClose i code) st) = None"
    "audioContextRef (step pf (SocketClose i code) st) = None"
    unfolding e by (simp_all add: onclose_fields s1_def)
  show "readyState (step pf (SocketClose i code) st) i = Some CLOSED"
    unfolding e using l by (simp add: readyState_def onclose_fields s1_def)
  show "\<forall>p. processorRef st = Some p \<longrightarrow>
         Processor_disconnect p \<in> set (released (step pf (SocketClose i code) st))"
    unfolding e using onclose_fields(11) [of s1] by (simp add: s1_def)
  show "\<forall>m. mediaStreamRef st = Some m \<longrightarrow>
         Track_stop m \<in> set (released (step pf (SocketClose i code) st))"
    unfolding e using onclose_fields(12) [of s1] by (simp add: s1_def)
  show "\<forall>c. audioContextRef st = Some c \<longrightarrow>
         Context_close c \<in> set (released (step pf (SocketClose i code) st))"
    unfolding e using onclose_fields(13) [of s1] by (simp add: s1_def)
qed

theorem teardown_paths_witness:
  "isNegotiating ex_session \<and> torn_down (step test_platform StopIntent ex_session) \<and>
   readyState ex_session 0 \<in> {Some CONNECTING, Some OPEN, Some CLOSING} \<and>
   status (debugInfo (step test_platform (SocketClose 0 1006) ex_session)) = Disconnected_code 1006 \<and>
   readyState (step test_platform (SocketClose 0 1006) ex_session) 0 = Some CLOSED"
proof -
  have n: "isNegotiating ex_session"
    by (simp add: ex_session_def fixture_defs handler_defs basic_defs Let_def)
  have r: "readyState ex_session 0 \<in> {Some CONNECTING, Some OPEN, Some CLOSING}"
    by (simp add: ex_session_def fixture_defs handler_defs basic_defs Let_def)
  show ?thesis
    using teardown_paths [of ex_session test_platform 0 1006] n r by blast
qed

text \<open>
  C1 as stated fails on a close event: the server closes the socket of a session showing
  volume 42 and one whisper, and both are still there afterwards.
\<close>

theorem teardown_paths_counterexample:
  "ex_closed = step test_platform (SocketClose 0 1006) ex_session \<and>
   readyState ex_session 0 = Some OPEN \<and>
   status (debugInfo ex_closed) = Disconnected_code 1006 \<and>
   audioLevel ex_closed = JNum 42 \<and> audioLevel ex_closed \<noteq> JNum 0 \<and>
   whispers ex_closed = [\<lparr>id_w = 0, text_w = JStr ''hello'', timestamp_w = 0\<rparr>] \<and>
   whispers ex_closed \<noteq> []"
  by (simp add: ex_closed_def ex_session_def fixture_defs handler_defs basic_defs Let_def)

text \<open>
  C2. For every input sample, the capture encoder clamps the sample to \<open>[-1, 1]\<close> and then
  converts it to a 16-bit signed integer, multiplying a negative value by 32768 and a
  non-negative one by 32767. The product is stored in an \<^verbatim>\<open>Int16Array\<close>, which drops its
  fraction towards zero; it always fits 16 bits, so nothing wraps around.
\<close>

theorem capture_sample_conversion:
  "- 1 \<le> clamp_sample x \<and> clamp_sample x \<le> 1 \<and>
   clamp_sample x = (if x < - 1 then - 1 else if 1 < x then 1 else x) \<and>
   sint (pcm_sample x) =
     (if clamp_sample x < 0 then \<lceil>clamp_sample x * 32768\<rceil> else \<lfloor>clamp_sample x * 32767\<rfloor>) \<and>
   - 32768 \<le> sint (pcm_sample x) \<and> sint (pcm_sample x) \<le> 32767 \<and>
   float_to_pcm xs = map pcm_sample xs"
proof -
  have r: "- 1 \<le> clamp_sample x" "clamp_sample x \<le> 1" by (rule clamp_sample_range)+
  have c: "clamp_sample x = (if x < - 1 then - 1 else if 1 < x then 1 else x)"
    by (simp add: clamp_sample_def)
  have s: "sint (pcm_sample x) =
     (if clamp_sample x < 0 then \<lceil>clamp_sample x * 32768\<rceil> else \<lfloor>clamp_sample x * 32767\<rfloor>)"
    unfolding sint_pcm_sample by (simp add: js_trunc_def scale_sample_def mult_less_0_iff)
  have b: "- 32768 \<le> sint (pcm_sample x)" "sint (pcm_sample x) \<le> 32767"
    unfolding sint_pcm_sample using js_trunc_scaled_range [OF r] by simp_all
  have m: "float_to_pcm xs = map pcm_sample xs" by (induction xs) simp_all
  show ?thesis using r c s b m by blast
qed

theorem capture_sample_conversion_witness:
  "sint (pcm_sample (- 1 / 2)) = - 16384 \<and> sint (pcm_sample 3) = 32767 \<and>
   float_to_pcm [- 1 / 2, 3] = [pcm_sample (- 1 / 2), pcm_sample 3]"
  using capture_sample_conversion [of "- 1 / 2" "[- 1 / 2, 3]"]
    capture_sample_conversion [of 3 "[]"]
  by (simp add: clamp_sample_def)

text \<open>
  C3, as amended. Encoding a sample sequence through the capture path and decoding the
  base64 text through the playback path gives one sample for each input sample. A
  negative clamped sample comes back at or above its value and less than one step
  (\<open>1/32768\<close>) away; a non-negative one comes back at or below its value and less than two
  steps away. One step is not enough: capture scales by 32767, playback divides by 32768.
\<close>

theorem pcm_round_trip:
  "\<exists>ys. decode_pcm (encode_pcm xs) = Inr ys \<and> length ys = length xs \<and>
     (\<forall>i < length xs.
        (clamp_sample (xs ! i) < 0 \<longrightarrow>
           clamp_sample (xs ! i) \<le> ys ! i \<and> ys ! i - clamp_sample (xs ! i) < 1 / 32768) \<and>
        (0 \<le> clamp_sample (xs ! i) \<longrightarrow>
           ys ! i \<le> clamp_sample (xs ! i) \<and> clamp_sample (xs ! i) - ys ! i < 2 / 32768))"
proof -
  define ys where "ys = map (\<lambda>x. int16_to_float (pcm_sample x)) xs"
  have d: "decode_pcm (encode_pcm xs) = Inr ys" unfolding ys_def by (rule decode_encode)
  have l: "length ys = length xs" unfolding ys_def by simp
  have b: "(clamp_sample (xs ! i) < 0 \<longrightarrow>
           clamp_sample (xs ! i) \<le> ys ! i \<and> ys ! i - clamp_sample (xs ! i) < 1 / 32768) \<and>
        (0 \<le> clamp_sample (xs ! i) \<longrightarrow>
           ys ! i \<le> clamp_sample (xs ! i) \<and> clamp_sample (xs ! i) - ys ! i < 2 / 32768)"
    if i: "i < length xs" for i
  proof -
    define s where "s = clamp_sample (xs ! i)"
    have y: "ys ! i = real_of_int (js_trunc (scale_sample s)) / 32768"
      using i unfolding ys_def s_def by (simp add: int16_to_float_def sint_pcm_sample)
    have r: "- 1 \<le> s" "s \<le> 1" unfolding s_def by (rule clamp_sample_range)+
    show ?thesis unfolding s_def [symmetric] y
      using quantise_negative [OF r(1)] quantise_nonnegative [OF _ r(2)] by blast
  qed
  show ?thesis using d l b by blast
qed

theorem pcm_round_trip_witness:
  "(0 :: nat) < length [65535 / 65536, - 1 / 2, 3 :: real] \<and>
   0 \<le> clamp_sample ([65535 / 65536, - 1 / 2, 3] ! 0) \<and>
   (\<exists>ys. decode_pcm (encode_pcm [65535 / 65536, - 1 / 2, 3]) = Inr ys \<and> length ys = 3 \<and>
      ys ! 0 \<le> 65535 / 65536 \<and> 65535 / 65536 - ys ! 0 < 2 / 32768)"
proof -
  have h: "(0 :: nat) < length [65535 / 65536, - 1 / 2, 3 :: real]" by simp
  have c: "clamp_sample ([65535 / 65536, - 1 / 2, 3] ! 0) = 65535 / 65536"
    by (simp add: clamp_sample_def)
  from pcm_round_trip [of "[65535 / 65536, - 1 / 2, 3]"] obtain ys where
    y: "decode_pcm (encode_pcm [65535 / 65536, - 1 / 2, 3]) = Inr ys" "length ys = 3"
    "0 \<le> clamp_sample ([65535 / 65536, - 1 / 2, 3] ! 0) \<longrightarrow>
       ys ! 0 \<le> clamp_sample ([65535 / 65536, - 1 / 2, 3] ! 0) \<and>
       clamp_sample ([65535 / 65536, - 1 / 2, 3] ! 0) - ys ! 0 < 2 / 32768"
    using h by auto
  then show ?thesis unfolding c by auto
qed

text \<open>
  C3 as stated fails: the sample \<open>65535/65536\<close>, a Float32 inside \<open>[-1, 1]\<close>, is sent as
  the base64 text \<^verbatim>\<open>/n8=\<close> (the integer 32766) and comes back as \<open>16383/16384\<close>, one and
  a half steps below.
\<close>

theorem pcm_round_trip_counterexample:
  "encode_pcm [65535 / 65536] = ''/n8='' \<and>
   decode_pcm ''/n8='' = Inr [16383 / 16384] \<and>
   clamp_sample (65535 / 65536) = 65535 / 65536 \<and>
   \<not> \<bar>16383 / 16384 - clamp_sample (65535 / 65536)\<bar> \<le> 1 / 32768"
proof -
  have p: "pcm_sample (65535 / 65536) = 32766"
    by (simp add: pcm_sample_def ToInt16_def js_trunc_def scale_sample_def clamp_sample_def)
  have e: "encode_pcm [65535 / 65536] = ''/n8=''"
    by (simp add: encode_pcm_def p int16_bytes_def b64_char_def b64_alphabet_def Let_def)
  have d: "decode_pcm ''/n8='' = Inr [16383 / 16384]"
    by (simp add: decode_pcm_def atob_def ascii_whitespace_def strip_padding_def b64_index_def
        b64_alphabet_def Let_def bytes_to_float_def getInt16_def int16_to_float_def)
  have c: "clamp_sample (65535 / 65536) = 65535 / 65536" by (simp add: clamp_sample_def)
  show ?thesis unfolding c using e d by simp
qed

text \<open>
  C4. For every message \<^verbatim>\<open>JSON.parse\<close> accepts: with type \<^verbatim>\<open>"whisper"\<close> and a text
  payload the router appends exactly one whisper, holding that text, the counter's value
  as id and the current time, and calls no playback; with type \<^verbatim>\<open>"audio"\<close> and an
  audio payload it calls \<^verbatim>\<open>playPcmChunk\<close> exactly once and creates no whisper; with no
  type and an audio payload it calls \<^verbatim>\<open>playPcmChunk\<close> exactly once (legacy) and creates
  no whisper; with no type and a text payload it creates no whisper. A payload is present
  when the code's test of it succeeds, that is when it is truthy: a non-empty string in
  particular. Each call of \<^verbatim>\<open>playPcmChunk\<close> leaves one entry in \<open>playbacks\<close>.
\<close>

theorem router_dispatch:
  assumes "JSON_parse pf event_data = Some data"
  shows
    "(property data ''type'' = Some (JStr ''whisper'') \<and> truthy (property data ''text'') \<longrightarrow>
        (\<exists>t. property data ''text'' = Some t \<and>
           whispers (onmessage pf event_data st) =
             whispers st @ [\<lparr>id_w = whisperIdCounter st, text_w = t, timestamp_w = clock st\<rparr>]) \<and>
        playbacks (onmessage pf event_data st) = playbacks st) \<and>
     (property data ''type'' = Some (JStr ''audio'') \<and> truthy (property data ''audio'') \<longrightarrow>
        length (playbacks (onmessage pf event_data st)) = length (playbacks st) + 1 \<and>
        whispers (onmessage pf event_data st) = whispers st) \<and>
     (property data ''type'' = None \<and> truthy (property data ''audio'') \<longrightarrow>
        length (playbacks (onmessage pf event_data st)) = length (playbacks st) + 1 \<and>
        whispers (onmessage pf event_data st) = whispers st) \<and>
     (property data ''type'' = None \<and> truthy (property data ''text'') \<longrightarrow>
        whispers (onmessage pf event_data st) = whispers st)"
proof -
  define W where "W = (case property data ''text'' of
             None \<Rightarrow> (\<lambda>s. s)
           | Some t \<Rightarrow>
               if property data ''type'' = Some (JStr ''whisper'') \<and> truthy (Some t)
               then create_whisper t else (\<lambda>s. s))"
  define s1 where "s1 = st\<lparr>debugInfo := (debugInfo st)
              \<lparr>lastMessage := (if length event_data > 50 then take 50 event_data @ ''...''
                                else event_data)\<rparr>,
              audioLevel := (case property data ''vol'' of None \<Rightarrow> audioLevel st | Some v \<Rightarrow> v)\<rparr>"
  have main: "\<exists>ps. whispers (onmessage pf event_data st) = whispers (W s1) \<and>
      playbacks (onmessage pf event_data st) = playbacks st @ ps \<and>
      length ps =
       (if property data ''type'' = Some (JStr ''audio'') \<and> truthy (property data ''audio'')
        then 1 else 0) +
       (if truthy (property data ''audio'') \<and> \<not> truthy (property data ''type'') then 1 else 0)"
    if n: "data \<noteq> JNull"
  proof -
    from onmessage_eq [OF assms n, of st] obtain c ps where
      e: "onmessage pf event_data st = (W s1)\<lparr>console := c, playbacks := playbacks st @ ps\<rparr>"
      and l: "length ps =
       (if property data ''type'' = Some (JStr ''audio'') \<and> truthy (property data ''audio'')
        then 1 else 0) +
       (if truthy (property data ''audio'') \<and> \<not> truthy (property data ''type'') then 1 else 0)"
      unfolding W_def [symmetric] s1_def [symmetric] by (elim exE conjE) (rule that)
    show ?thesis
      by (rule exI [of _ ps]) (simp add: e l)
  qed
  have a: "(\<exists>t. property data ''text'' = Some t \<and>
           whispers (onmessage pf event_data st) =
             whispers st @ [\<lparr>id_w = whisperIdCounter st, text_w = t, timestamp_w = clock st\<rparr>]) \<and>
        playbacks (onmessage pf event_data st) = playbacks st"
    if h: "property data ''type'' = Some (JStr ''whisper'')" "truthy (property data ''text'')"
  proof -
    from h(2) obtain t where t: "property data ''text'' = Some t" using truthy_Some by blast
    have w: "W = create_whisper t" unfolding W_def t using h unfolding t by simp
    from main [OF property_JNull [OF t]] obtain ps where
      m: "whispers (onmessage pf event_data st) = whispers (W s1)"
      "playbacks (onmessage pf event_data st) = playbacks st @ ps"
      "length ps =
       (if property data ''type'' = Some (JStr ''audio'') \<and> truthy (property data ''audio'')
        then 1 else 0) +
       (if truthy (property data ''audio'') \<and> \<not> truthy (property data ''type'') then 1 else 0)"
      by (elim exE conjE) (rule that)
    have "length ps = 0" using m(3) h(1) by simp
    then have "playbacks (onmessage pf event_data st) = playbacks st" using m(2) by simp
    moreover have "whispers (onmessage pf event_data st) =
             whispers st @ [\<lparr>id_w = whisperIdCounter st, text_w = t, timestamp_w = clock st\<rparr>]"
      unfolding m(1) w by (simp add: create_whisper_fields s1_def)
    ultimately show ?thesis using t by simp
  qed
  have b: "length (playbacks (onmessage pf event_data st)) = length (playbacks st) + 1 \<and>
        whispers (onmessage pf event_data st) = whispers st"
    if h: "property data ''type'' = Some (JStr ''audio'') \<or> property data ''type'' = None"
      "truthy (property data ''audio'')"
  proof -
    from h(2) obtain a where a: "property data ''audio'' = Some a" using truthy_Some by blast
    have w: "W = (\<lambda>s. s)" unfolding W_def using h(1) by (auto split: option.splits)
    from main [OF property_JNull [OF a]] obtain ps where
      m: "whispers (onmessage pf event_data st) = whispers (W s1)"
      "playbacks (onmessage pf event_data st) = playbacks st @ ps"
      "length ps =
       (if property data ''type'' = Some (JStr ''audio'') \<and> truthy (property data ''audio'')
        then 1 else 0) +
       (if truthy (property data ''audio'') \<and> \<not> truthy (property data ''type'') then 1 else 0)"
      by (elim exE conjE) (rule that)
    have "length ps = 1" using m(3) h by auto
    then have "length (playbacks (onmessage pf event_data st)) = length (playbacks st) + 1"
      using m(2) by simp
    moreover have "whispers (onmessage pf event_data st) = whispers st"
      unfolding m(1) w by (simp add: s1_def)
    ultimately show ?thesis by simp
  qed
  have c: "whispers (onmessage pf event_data st) = whispers st"
    if h: "property data ''type'' = None" "truthy (property data ''text'')"
  proof -
    from h(2) obtain t where t: "property data ''text'' = Some t" using truthy_Some by blast
    have w: "W = (\<lambda>s. s)" unfolding W_def using h(1) by (auto split: option.splits)
    from main [OF property_JNull [OF t]] obtain ps where
      m: "whispers (onmessage pf event_data st) = whispers (W s1)"
      by (elim exE conjE) (rule that)
    show ?thesis unfolding m w by (simp add: s1_def)
  qed
  show ?thesis using a b c by blast
qed

theorem router_dispatch_witness:
  "JSON_parse test_platform msg_whisper =
     Some (JObj [(''type'', JStr ''whisper''), (''text'', JStr ''hello'')]) \<and>
   whispers (onmessage test_platform msg_whisper ex_connected) =
     whispers ex_connected @
       [\<lparr>id_w = whisperIdCounter ex_connected, text_w = JStr ''hello'',
         timestamp_w = clock ex_connected\<rparr>] \<and>
   playbacks (onmessage test_platform msg_whisper ex_connected) = playbacks ex_connected \<and>
   JSON_parse test_platform msg_audio =
     Some (JObj [(''type'', JStr ''audio''), (''audio'', JStr ''/n8='')]) \<and>
   length (playbacks (onmessage test_platform msg_audio ex_connected)) =
     length (playbacks ex_connected) + 1 \<and>
   whispers (onmessage test_platform msg_audio ex_connected) = whispers ex_connected \<and>
   JSON_parse test_platform msg_legacy_audio = Some (JObj [(''audio'', JStr ''/n8='')]) \<and>
   length (playbacks (onmessage test_platform msg_legacy_audio ex_connected)) =
     length (playbacks ex_connected) + 1 \<and>
   JSON_parse test_platform msg_legacy_text = Some (JObj [(''text'', JStr ''hi'')]) \<and>
   whispers (onmessage test_platform msg_legacy_text ex_connected) = whispers ex_connected"
proof -
  have 1: "JSON_parse test_platform msg_whisper =
     Some (JObj [(''type'', JStr ''whisper''), (''text'', JStr ''hello'')])"
    by (simp add: fixture_defs)
  have 2: "JSON_parse test_platform msg_audio =
     Some (JObj [(''type'', JStr ''audio''), (''audio'', JStr ''/n8='')])"
    by (simp add: fixture_defs)
  have 3: "JSON_parse test_platform msg_legacy_audio = Some (JObj [(''audio'', JStr ''/n8='')])"
    by (simp add: fixture_defs)
  have 4: "JSON_parse test_platform msg_legacy_text = Some (JObj [(''text'', JStr ''hi'')])"
    by (simp add: fixture_defs)
  show ?thesis
    using router_dispatch [OF 1, of ex_connected] router_dispatch [OF 2, of ex_connected]
      router_dispatch [OF 3, of ex_connected] router_dispatch [OF 4, of ex_connected]
    unfolding 1 2 3 4 by simp
qed




text \<open>
  C6, as amended. Timers are taken to run exactly when they are due. A whisper is created
  with the current time as timestamp and with its own timer, due 10000 ms later, that
  carries its id. When that timer runs it removes the whispers of that id, of which there
  is one since ids are distinct, and touches nothing else. In every state the page can
  reach, each listed whisper is less than 10000 ms old: a whisper created at time T is
  absent at every time from T + 10000 on. It is listed at every earlier time as long as
  its session is still the live one, that is until a stop intent, the stop after a
  capture failure, or a new session empties the list.
\<close>

theorem annotation_expiry:
  "whispers (create_whisper t st) =
     whispers st @ [\<lparr>id_w = whisperIdCounter st, text_w = t, timestamp_w = clock st\<rparr>] \<and>
   timers (create_whisper t st) =
     timers st @ [(clock st + 10000, ExpireWhisper (whisperIdCounter st))] \<and>
   fire pf (ExpireWhisper k) st = st\<lparr>whispers := filter (\<lambda>w. id_w w \<noteq> k) (whispers st)\<rparr> \<and>
   distinct (map id_w (whispers (run pf es mount))) \<and>
   (\<forall>w \<in> set (whispers (run pf es mount)).
      clock (run pf es mount) < timestamp_w w + 10000) \<and>
   (\<forall>w \<in> set (whispers (run pf es mount)).
      isNegotiating (run pf es' (run pf es mount)) \<and>
      length (sockets (run pf es' (run pf es mount))) = length (sockets (run pf es mount)) \<and>
      clock (run pf es' (run pf es mount)) < timestamp_w w + 10000 \<longrightarrow>
      w \<in> set (whispers (run pf es' (run pf es mount))))"
proof -
  define r where "r = run pf es mount"
  have i: "session_inv r" unfolding r_def by (rule session_inv_reachable)
  have d: "distinct (map id_w (whispers r))"
    using i unfolding session_inv_def whispers_ok_def by (simp add: strict_sorted_iff)
  have y: "\<forall>w \<in> set (whispers r). clock r < timestamp_w w + 10000"
    using whisper_young [OF i] by blast
  have l: "later r (run pf es' r)" by (rule later_run [OF i])
  have p: "\<forall>w \<in> set (whispers r).
      isNegotiating (run pf es' r) \<and>
      length (sockets (run pf es' r)) = length (sockets r) \<and>
      clock (run pf es' r) < timestamp_w w + 10000 \<longrightarrow>
      w \<in> set (whispers (run pf es' r))"
  proof (intro ballI impI)
    fix w assume w: "w \<in> set (whispers r)"
      and h: "isNegotiating (run pf es' r) \<and>
      length (sockets (run pf es' r)) = length (sockets r) \<and>
      clock (run pf es' r) < timestamp_w w + 10000"
    from l h have "\<forall>w \<in> set (whispers r).
            w \<in> set (whispers (run pf es' r)) \<or> timestamp_w w + 10000 \<le> clock (run pf es' r)"
      unfolding later_def by blast
    with w h show "w \<in> set (whispers (run pf es' r))" by fastforce
  qed
  show ?thesis
    unfolding r_def [symmetric] using d y p by (simp add: create_whisper_fields)
qed

theorem annotation_expiry_witness:
  "whispers ex_session = [\<lparr>id_w = 0, text_w = JStr ''hello'', timestamp_w = 0\<rparr>] \<and>
   isNegotiating (run test_platform [Elapse 3] ex_session) \<and>
   length (sockets (run test_platform [Elapse 3] ex_session)) = length (sockets ex_session) \<and>
   clock (run test_platform [Elapse 3] ex_session) = 3 \<and>
   clock ex_session < timestamp_w \<lparr>id_w = 0, text_w = JStr ''hello'', timestamp_w = 0\<rparr> + 10000 \<and>
   \<lparr>id_w = 0, text_w = JStr ''hello'', timestamp_w = 0\<rparr>
     \<in> set (whispers (run test_platform [Elapse 3] ex_session))"
proof -
  define w where "w = \<lparr>id_w = 0, text_w = JStr ''hello'', timestamp_w = 0\<rparr>"
  have 1: "whispers ex_session = [w]"
    unfolding w_def by (simp add: ex_session_def fixture_defs handler_defs basic_defs Let_def)
  have 2: "isNegotiating (run test_platform [Elapse 3] ex_session)"
    "length (sockets (run test_platform [Elapse 3] ex_session)) = length (sockets ex_session)"
    "clock (run test_platform [Elapse 3] ex_session) = 3"
    by (simp_all add: ex_session_def fixture_defs handler_defs basic_defs Let_def tick_def
        elapse_3)
  have m: "w \<in> set (whispers (run test_platform
      [StartIntent, SocketOpen 0, SocketMessage 0 msg_vol_whisper] mount))"
    using 1 unfolding ex_session_def by simp
  note t = annotation_expiry [where pf = test_platform
      and es = "[StartIntent, SocketOpen 0, SocketMessage 0 msg_vol_whisper]"
      and es' = "[Elapse 3]", folded ex_session_def]
  have 3: "clock ex_session < timestamp_w w + 10000"
    using t m [folded ex_session_def] by blast
  have 4: "w \<in> set (whispers (run test_platform [Elapse 3] ex_session))"
    using t m [folded ex_session_def] 2 unfolding w_def by simp
  show ?thesis using 1 2 3 4 unfolding w_def by simp
qed

text \<open>
  C6 as stated fails: a whisper created at time 0 is gone at time 3, when the user stops
  the session.
\<close>

theorem annotation_expiry_counterexample:
  "whispers ex_session = [\<lparr>id_w = 0, text_w = JStr ''hello'', timestamp_w = 0\<rparr>] \<and>
   clock (run test_platform [Elapse 3, StopIntent] ex_session) = 3 \<and>
   (3 :: nat) < 0 + 10000 \<and>
   whispers (run test_platform [Elapse 3, StopIntent] ex_session) = []"
  by (simp add: ex_session_def fixture_defs handler_defs basic_defs Let_def tick_def
      elapse_3)

text \<open>
  C7. A capture callback that finds no socket, or a socket that is not open, returns at
  once: the state after it is the state before it, so nothing of the block is kept, no
  envelope is sent for it, and whatever happens afterwards happens as if the block had
  never been captured.
\<close>

theorem closed_socket_drops_block:
  assumes "case wsRef st of None \<Rightarrow> True | Some i \<Rightarrow> readyState st i \<noteq> Some OPEN"
  shows "onaudioprocess inputData st = st \<and>
         step pf (AudioProcess inputData) st = st \<and>
         sent (step pf (AudioProcess inputData) st) = sent st \<and>
         run pf es (step pf (AudioProcess inputData) st) = run pf es st"
proof -
  have "onaudioprocess inputData st = st"
    using assms by (simp add: onaudioprocess_def split: option.splits)
  then show ?thesis by simp
qed

theorem closed_socket_drops_block_witness:
  "(case wsRef ex_late_capture of None \<Rightarrow> True
    | Some i \<Rightarrow> readyState ex_late_capture i \<noteq> Some OPEN) \<and>
   processorRef ex_late_capture \<noteq> None \<and>
   step test_platform (AudioProcess [1 / 2, - 1]) ex_late_capture = ex_late_capture \<and>
   sent (step test_platform (AudioProcess [1 / 2, - 1]) ex_late_capture) = sent ex_late_capture"
proof -
  have h: "case wsRef ex_late_capture of None \<Rightarrow> True
    | Some i \<Rightarrow> readyState ex_late_capture i \<noteq> Some OPEN"
    by code_simp
  have p: "processorRef ex_late_capture \<noteq> None"
    by code_simp
  show ?thesis
    using closed_socket_drops_block [OF h, of "[1 / 2, - 1]" test_platform "[]"] h p by blast
qed

text \<open>
  C8. Capture start can fail in three ways: the browser has no \<^verbatim>\<open>getUserMedia\<close>
  (DeviceUnavailable), the \<^verbatim>\<open>getUserMedia\<close> promise is rejected (PermissionDenied among
  others), or a later call of the set-up throws. Each time the error is printed and put
  into \<^verbatim>\<open>lastMessage\<close>, \<^verbatim>\<open>isConnected\<close> is cleared and exactly one timer is added, the
  stop due 2000 ms later; no capture timer is added and no new microphone request is
  made, so capture start is not retried. If the session is live, then once 2000 ms or
  more have passed the session is torn down.
\<close>

theorem capture_failure_aborts:
  "(\<not> has_getUserMedia pf \<longrightarrow>
      failure_handled ''getUserMedia is not supported in this browser'' st
        (fire pf StartCapture st) \<and>
      (isNegotiating st \<and> 2000 \<le> n \<longrightarrow> torn_down (elapse pf n (fire pf StartCapture st)))) \<and>
   (0 < pendingGetUserMedia st \<longrightarrow>
      failure_handled msg st (step pf (GetUserMediaRejected msg) st) \<and>
      (isNegotiating st \<and> 2000 \<le> n \<longrightarrow>
         torn_down (elapse pf n (step pf (GetUserMediaRejected msg) st)))) \<and>
   (0 < pendingGetUserMedia st \<and> (stage = At_resume \<longrightarrow> suspended) \<longrightarrow>
      failure_handled msg st (step pf (GetUserMediaResolved suspended (Some (stage, msg))) st) \<and>
      (isNegotiating st \<and> 2000 \<le> n \<longrightarrow>
         torn_down
           (elapse pf n (step pf (GetUserMediaResolved suspended (Some (stage, msg))) st))))"
proof -
  have a: "failure_handled ''getUserMedia is not supported in this browser'' st
        (fire pf StartCapture st)" if "\<not> has_getUserMedia pf"
  proof -
    have e: "fire pf StartCapture st =
      capture_failed ''getUserMedia is not supported in this browser''
        (console_log ''[AUDIO] Requesting microphone access...'' st)"
      using that by (simp add: startAudioCapture_def Let_def)
    show ?thesis unfolding e
      by (rule failure_handled_cong [OF failure_handled_capture_failed])
         (simp_all add: basic_defs)
  qed
  have b: "failure_handled msg st (step pf (GetUserMediaRejected msg) st)"
    if "0 < pendingGetUserMedia st"
  proof -
    have e: "step pf (GetUserMediaRejected msg) st =
      capture_failed msg (st\<lparr>pendingGetUserMedia := pendingGetUserMedia st - 1\<rparr>)"
      using that by simp
    show ?thesis unfolding e
      by (rule failure_handled_cong [OF failure_handled_capture_failed]) simp_all
  qed
  have c: "failure_handled msg st (step pf (GetUserMediaResolved suspended (Some (stage, msg))) st)"
    if "0 < pendingGetUserMedia st" "stage = At_resume \<longrightarrow> suspended"
  proof -
    define s0 where "s0 = st\<lparr>pendingGetUserMedia := pendingGetUserMedia st - 1\<rparr>"
    have e: "step pf (GetUserMediaResolved suspended (Some (stage, msg))) st =
      capture_granted suspended (Some (stage, msg)) s0"
      using that(1) by (simp add: s0_def)
    from capture_granted_fault [OF that(2), of msg s0] obtain sb where
      g: "capture_granted suspended (Some (stage, msg)) s0 = capture_failed msg sb"
      and k: "timers sb = timers s0" "clock sb = clock s0"
        "pendingGetUserMedia sb = pendingGetUserMedia s0" "isNegotiating sb = isNegotiating s0"
      by (elim exE conjE) (rule that)
    show ?thesis unfolding e g
      by (rule failure_handled_cong [OF failure_handled_capture_failed])
         (simp_all add: k s0_def)
  qed
  show ?thesis
  proof (intro conjI impI)
    assume h: "\<not> has_getUserMedia pf"
    show "failure_handled ''getUserMedia is not supported in this browser'' st
        (fire pf StartCapture st)" by (rule a [OF h])
    show "torn_down (elapse pf n (fire pf StartCapture st))" if "isNegotiating st \<and> 2000 \<le> n"
      using failure_aborts [OF a [OF h]] that by blast
  next
    assume h: "0 < pendingGetUserMedia st"
    show "failure_handled msg st (step pf (GetUserMediaRejected msg) st)" by (rule b [OF h])
    show "torn_down (elapse pf n (step pf (GetUserMediaRejected msg) st))"
      if "isNegotiating st \<and> 2000 \<le> n"
      using failure_aborts [OF b [OF h]] that by blast
  next
    assume h: "0 < pendingGetUserMedia st \<and> (stage = At_resume \<longrightarrow> suspended)"
    then have h1: "0 < pendingGetUserMedia st" and h2: "stage = At_resume \<longrightarrow> suspended"
      by simp_all
    show "failure_handled msg st (step pf (GetUserMediaResolved suspended (Some (stage, msg))) st)"
      by (rule c [OF h1 h2])
    show "torn_down (elapse pf n (step pf (GetUserMediaResolved suspended (Some (stage, msg))) st))"
      if "isNegotiating st \<and> 2000 \<le> n"
      using failure_aborts [OF c [OF h1 h2]] that by blast
  qed
qed

theorem capture_failure_aborts_witness:
  "0 < pendingGetUserMedia ex_requesting \<and> isNegotiating ex_requesting \<and>
   (2000 :: nat) \<le> 2000 \<and>
   failure_handled ''Permission denied'' ex_requesting
     (step test_platform (GetUserMediaRejected ''Permission denied'') ex_requesting) \<and>
   torn_down
     (elapse test_platform 2000
        (step test_platform (GetUserMediaRejected ''Permission denied'') ex_requesting)) \<and>
   failure_handled ''no context'' ex_requesting
     (step test_platform (GetUserMediaResolved False (Some (At_AudioContext, ''no context'')))
        ex_requesting)"
proof -
  have p: "0 < pendingGetUserMedia ex_requesting" by code_simp
  have n: "isNegotiating ex_requesting" by code_simp
  note t1 = capture_failure_aborts [where pf = test_platform and st = ex_requesting
        and msg = "''Permission denied''" and n = 2000, THEN conjunct2, THEN conjunct1,
        THEN mp, OF p]
  note t2 = capture_failure_aborts [where pf = test_platform and st = ex_requesting
        and msg = "''no context''" and stage = At_AudioContext and suspended = False
        and n = 2000, THEN conjunct2, THEN conjunct2, THEN mp]
  have a: "failure_handled ''Permission denied'' ex_requesting
     (step test_platform (GetUserMediaRejected ''Permission denied'') ex_requesting)"
    using t1 by (rule conjunct1)
  have b: "torn_down
     (elapse test_platform 2000
        (step test_platform (GetUserMediaRejected ''Permission denied'') ex_requesting))"
    using t1 [THEN conjunct2] n by blast
  have c: "failure_handled ''no context'' ex_requesting
     (step test_platform (GetUserMediaResolved False (Some (At_AudioContext, ''no context'')))
        ex_requesting)"
    using t2 p by blast
  show ?thesis using p n a b c by (intro conjI) simp_all
qed

text \<open>
  C9. Stop is idempotent. In every state the page can reach, a stop intent met in status
  \<^verbatim>\<open>'Disconnected'\<close> changes nothing at all; a second stop intent after a first changes
  nothing; a second \<^verbatim>\<open>disconnectWebSocket\<close> after a first closes no socket and releases
  nothing again, it only prints the console line of \<^verbatim>\<open>stopAudioCapture\<close>; and
  \<^verbatim>\<open>stopAudioCapture\<close> with no capture started releases nothing and only prints that
  line.
\<close>

theorem stop_idempotent:
  "(status (debugInfo (run pf es mount)) = Disconnected \<longrightarrow>
      step pf StopIntent (run pf es mount) = run pf es mount) \<and>
   step pf StopIntent (step pf StopIntent st) = step pf StopIntent st \<and>
   disconnectWebSocket (disconnectWebSocket st) =
     (disconnectWebSocket st)
       \<lparr>console := console (disconnectWebSocket st) @ [Log ''[AUDIO] Stopping audio capture'']\<rparr> \<and>
   released (disconnectWebSocket (disconnectWebSocket st)) = released (disconnectWebSocket st) \<and>
   (processorRef st = None \<and> mediaStreamRef st = None \<and> audioContextRef st = None \<longrightarrow>
      stopAudioCapture st = st\<lparr>console := console st @ [Log ''[AUDIO] Stopping audio capture'']\<rparr> \<and>
      released (stopAudioCapture st) = released st)"
proof (intro conjI impI)
  assume d: "status (debugInfo (run pf es mount)) = Disconnected"
  have "\<not> isNegotiating (run pf es mount)"
    using session_inv_reachable [of pf es] d unfolding session_inv_def by blast
  then show "step pf StopIntent (run pf es mount) = run pf es mount"
    by (simp add: setIsNegotiating_def)
next
  show "step pf StopIntent (step pf StopIntent st) = step pf StopIntent st"
    by (simp add: setIsNegotiating_def Let_def disconnect_frame)
next
  show t: "disconnectWebSocket (disconnectWebSocket st) =
     (disconnectWebSocket st)
       \<lparr>console := console (disconnectWebSocket st) @ [Log ''[AUDIO] Stopping audio capture'']\<rparr>"
    by (rule disconnect_twice)
  show "released (disconnectWebSocket (disconnectWebSocket st)) = released (disconnectWebSocket st)"
    by (subst t) simp
next
  assume "processorRef st = None \<and> mediaStreamRef st = None \<and> audioContextRef st = None"
  then have i: "stopAudioCapture st = st\<lparr>console := console st @ [Log ''[AUDIO] Stopping audio capture'']\<rparr>"
    by (simp add: stopAudioCapture_idle)
  show "stopAudioCapture st = st\<lparr>console := console st @ [Log ''[AUDIO] Stopping audio capture'']\<rparr>"
    by (rule i)
  show "released (stopAudioCapture st) = released st" by (subst i) simp
qed

theorem stop_idempotent_witness:
  "status (debugInfo (run test_platform [StartIntent, SocketOpen 0, StopIntent] mount)) = Disconnected \<and>
   step test_platform StopIntent (run test_platform [StartIntent, SocketOpen 0, StopIntent] mount) =
     run test_platform [StartIntent, SocketOpen 0, StopIntent] mount \<and>
   processorRef mount = None \<and> mediaStreamRef mount = None \<and> audioContextRef mount = None \<and>
   released (stopAudioCapture mount) = released mount"
proof -
  have d: "status (debugInfo (run test_platform [StartIntent, SocketOpen 0, StopIntent] mount)) = Disconnected"
    by (simp add: fixture_defs handler_defs basic_defs Let_def)
  have m: "processorRef mount = None \<and> mediaStreamRef mount = None \<and> audioContextRef mount = None"
    by (simp add: mount_def disconnect_post)
  show ?thesis
    using stop_idempotent [of test_platform "[StartIntent, SocketOpen 0, StopIntent]" mount] d m
    by blast
qed

text \<open>
  C10. Creating a whisper gives it the counter's value as id and adds exactly one to the
  counter. Nothing resets the counter: not \<^verbatim>\<open>disconnectWebSocket\<close>, not
  \<^verbatim>\<open>connectWebSocket\<close> (which empties the list), no start or stop intent, and in any
  run of the page the counter never goes down. So in every reachable state the ids of the
  listed whispers are below the counter and strictly increasing, and a whisper created
  after any run that follows the creation of another, across stops and new sessions, gets
  a larger id.
\<close>

theorem whisper_ids_unique:
  "whisperIdCounter (create_whisper t st) = whisperIdCounter st + 1 \<and>
   whispers (create_whisper t st) =
     whispers st @ [\<lparr>id_w = whisperIdCounter st, text_w = t, timestamp_w = clock st\<rparr>] \<and>
   whisperIdCounter (disconnectWebSocket st) = whisperIdCounter st \<and>
   whisperIdCounter (connectWebSocket st) = whisperIdCounter st \<and>
   whispers (connectWebSocket st) = [] \<and>
   whisperIdCounter (step pf StartIntent st) = whisperIdCounter st \<and>
   whisperIdCounter (step pf StopIntent st) = whisperIdCounter st \<and>
   whisperIdCounter (run pf es mount) \<le> whisperIdCounter (run pf es' (run pf es mount)) \<and>
   (\<forall>w \<in> set (whispers (run pf es mount)). id_w w < whisperIdCounter (run pf es mount)) \<and>
   sorted_wrt (<) (map id_w (whispers (run pf es mount))) \<and>
   distinct (map id_w (whispers (run pf es mount))) \<and>
   whisperIdCounter (run pf es mount)
     < whisperIdCounter (run pf es' (create_whisper t (run pf es mount)))"
proof -
  define r where "r = run pf es mount"
  have i: "session_inv r" unfolding r_def by (rule session_inv_reachable)
  have ok: "whispers_ok r" using i unfolding session_inv_def by blast
  have 1: "whisperIdCounter r \<le> whisperIdCounter (run pf es' r)"
    using later_run [OF i, of pf es'] unfolding later_def by blast
  have 2: "\<forall>w \<in> set (whispers r). id_w w < whisperIdCounter r"
    using ok unfolding whispers_ok_def by blast
  have 3: "sorted_wrt (<) (map id_w (whispers r))"
    using ok unfolding whispers_ok_def by blast
  have 4: "distinct (map id_w (whispers r))"
    using 3 by (simp add: strict_sorted_iff)
  have "whisperIdCounter (create_whisper t r)
      \<le> whisperIdCounter (run pf es' (create_whisper t r))"
    using later_run [of "create_whisper t r" pf es', OF session_inv_create_whisper [OF i]]
    unfolding later_def by blast
  then have 5: "whisperIdCounter r < whisperIdCounter (run pf es' (create_whisper t r))"
    by (simp add: create_whisper_fields)
  show ?thesis
    unfolding r_def [symmetric] using 1 2 3 4 5
    by (simp add: create_whisper_fields disconnect_frame connect_fields setIsNegotiating_fields)
qed

theorem whisper_ids_unique_witness:
  "whispers ex_session = [\<lparr>id_w = 0, text_w = JStr ''hello'', timestamp_w = 0\<rparr>] \<and>
   id_w \<lparr>id_w = 0, text_w = JStr ''hello'', timestamp_w = 0\<rparr> < whisperIdCounter ex_session \<and>
   whisperIdCounter ex_session
     < whisperIdCounter
         (run test_platform [StopIntent, StartIntent]
            (create_whisper (JStr ''again'') ex_session))"
proof -
  have w: "whispers ex_session = [\<lparr>id_w = 0, text_w = JStr ''hello'', timestamp_w = 0\<rparr>]"
    by (simp add: ex_session_def fixture_defs handler_defs basic_defs Let_def)
  have "\<forall>w \<in> set (whispers ex_session). id_w w < whisperIdCounter ex_session"
    "whisperIdCounter ex_session
     < whisperIdCounter
         (run test_platform [StopIntent, StartIntent]
            (create_whisper (JStr ''again'') ex_session))"
    using whisper_ids_unique [of "JStr ''again''" ex_session test_platform
        "[StartIntent, SocketOpen 0, SocketMessage 0 msg_vol_whisper]" "[StopIntent, StartIntent]"]
    unfolding ex_session_def by blast+
  then show ?thesis using w by simp
qed

end
